theory Spec2Isabelle
  imports Main
begin

section \<open>Python values, errors and strings\<close>

text \<open>
  The module \<^verbatim>\<open>textacy/datasets/reddit_comments.py\<close> streams Reddit comments from
  monthly files of JSON lines. Python semantics are those of CPython 3 on a 64-bit POSIX
  platform (CPython 3.11, glibc). Strings are lists of 8-bit characters: the code points
  U+0000 to U+00FF of Python's \<^verbatim>\<open>str\<close>.
  An exception is a value of \<open>error\<close>; a function that may raise returns
  \<open>error + 'a\<close> with \<open>Inl\<close> for the exception.
\<close>

datatype error =
    ValueError
  | TypeError
  | KeyError string
  | OverflowError
  | OSError
  | IOError string "(string \<times> string) option"
    \<comment> \<open>\<^verbatim>\<open>'No files found at {} corresponding to date range {}'\<close>: the two formatted values\<close>

text \<open>
  The values a parsed JSON line holds under a key: \<^verbatim>\<open>null\<close>, an integer or a string.
\<close>

datatype jval = JNull | JInt int | JStr string

type_synonym jrecord = "string \<rightharpoonup> jval"

text \<open>Python's \<^verbatim>\<open><\<close> and \<^verbatim>\<open><=\<close> on \<^verbatim>\<open>str\<close>: by code point, a proper prefix is smaller.\<close>

fun str_lt :: "string \<Rightarrow> string \<Rightarrow> bool" where
  "str_lt [] [] = False"
| "str_lt [] (y # ys) = True"
| "str_lt (x # xs) [] = False"
| "str_lt (x # xs) (y # ys) =
     (if x = y then str_lt xs ys else (of_char x :: nat) < of_char y)"

definition str_le :: "string \<Rightarrow> string \<Rightarrow> bool" where
  "str_le a b = (a = b \<or> str_lt a b)"

section \<open>Module constants\<close>

definition MIN_DATE :: string where "MIN_DATE = ''2007-10-01''"
definition MAX_DATE :: string where "MAX_DATE = ''2015-06-01''"
definition MIN_SCORE :: int where "MIN_SCORE = - 2147483647"
definition MAX_SCORE :: int where "MAX_SCORE = 2147483647"

section \<open>Range arguments\<close>

text \<open>
  A range argument is \<^verbatim>\<open>None\<close>, or a list or tuple of items; an item is
  \<^verbatim>\<open>None\<close> or a value (a \<^verbatim>\<open>str\<close> for dates, an \<^verbatim>\<open>int\<close> for scores).
  Python's truth value of an item: \<^verbatim>\<open>None\<close>, \<^verbatim>\<open>''\<close> and \<^verbatim>\<open>0\<close> are false.
\<close>

fun truthy_str :: "string option \<Rightarrow> bool" where
  "truthy_str None = False"
| "truthy_str (Some s) = (s \<noteq> [])"

fun truthy_int :: "int option \<Rightarrow> bool" where
  "truthy_int None = False"
| "truthy_int (Some i) = (i \<noteq> 0)"

text \<open>
  \<^verbatim>\<open>_parse_date_range\<close>: an argument that is no list or tuple, or has not exactly two
  items, raises \<^verbatim>\<open>ValueError\<close>; a false first item becomes \<^verbatim>\<open>MIN_DATE\<close>, a false second
  item \<^verbatim>\<open>MAX_DATE\<close>.
\<close>

fun parse_date_range :: "string option list option \<Rightarrow> error + (string \<times> string)" where
  "parse_date_range None = Inl ValueError"
| "parse_date_range (Some [a, b]) =
     Inr (if \<not> truthy_str a then MIN_DATE else the a,
          if \<not> truthy_str b then MAX_DATE else the b)"
| "parse_date_range (Some _) = Inl ValueError"

text \<open>\<^verbatim>\<open>_parse_score_range\<close>: the same, with \<^verbatim>\<open>MIN_SCORE\<close> and \<^verbatim>\<open>MAX_SCORE\<close>.\<close>

fun parse_score_range :: "int option list option \<Rightarrow> error + (int \<times> int)" where
  "parse_score_range None = Inl ValueError"
| "parse_score_range (Some [a, b]) =
     Inr (if \<not> truthy_int a then MIN_SCORE else the a,
          if \<not> truthy_int b then MAX_SCORE else the b)"
| "parse_score_range (Some _) = Inl ValueError"

section \<open>Dates: \<^verbatim>\<open>datetime.strptime\<close>, \<^verbatim>\<open>datetime\<close> and \<^verbatim>\<open>strftime\<close>\<close>

definition is_digit :: "char \<Rightarrow> bool" where
  "is_digit c = (48 \<le> (of_char c :: nat) \<and> (of_char c :: nat) \<le> 57)"

definition digit_val :: "char \<Rightarrow> nat" where
  "digit_val c = of_char c - 48"

definition digit_char :: "nat \<Rightarrow> char" where
  "digit_char n = ''0123456789'' ! (n mod 10)"

text \<open>
  A regular expression directive applied at the head of a string gives the ways it can
  match, in the order the regular expression engine tries them, each with the value
  read and the rest of the string.

  \<^verbatim>\<open>%Y\<close> is \<^verbatim>\<open>\d\d\d\d\<close>, \<^verbatim>\<open>%m\<close> is \<^verbatim>\<open>1[0-2]|0[1-9]|[1-9]\<close> and \<^verbatim>\<open>%d\<close> is
  \<^verbatim>\<open>3[0-1]|[1-2]\d|0[1-9]|[1-9]| [1-9]\<close>.
\<close>

fun re_Y :: "string \<Rightarrow> (nat \<times> string) list" where
  "re_Y (a # b # c # d # rest) =
     (if is_digit a \<and> is_digit b \<and> is_digit c \<and> is_digit d
      then [(1000 * digit_val a + 100 * digit_val b + 10 * digit_val c + digit_val d, rest)]
      else [])"
| "re_Y _ = []"

definition in_range :: "char \<Rightarrow> char \<Rightarrow> char \<Rightarrow> bool" where
  "in_range lo hi c = ((of_char lo :: nat) \<le> of_char c \<and> (of_char c :: nat) \<le> of_char hi)"

fun two_chars :: "(char \<Rightarrow> bool) \<Rightarrow> (char \<Rightarrow> bool) \<Rightarrow> string \<Rightarrow> (nat \<times> string) list" where
  "two_chars p q (a # b # rest) =
     (if p a \<and> q b then [(10 * digit_val a + digit_val b, rest)] else [])"
| "two_chars p q _ = []"

fun one_char :: "(char \<Rightarrow> bool) \<Rightarrow> string \<Rightarrow> (nat \<times> string) list" where
  "one_char p (a # rest) = (if p a then [(digit_val a, rest)] else [])"
| "one_char p [] = []"

fun lit :: "char \<Rightarrow> string \<Rightarrow> string list" where
  "lit c (a # rest) = (if a = c then [rest] else [])"
| "lit c [] = []"

definition re_m :: "string \<Rightarrow> (nat \<times> string) list" where
  "re_m s =
     two_chars (\<lambda>c. c = CHR ''1'') (in_range CHR ''0'' CHR ''2'') s
     @ two_chars (\<lambda>c. c = CHR ''0'') (in_range CHR ''1'' CHR ''9'') s
     @ one_char (in_range CHR ''1'' CHR ''9'') s"

definition re_d :: "string \<Rightarrow> (nat \<times> string) list" where
  "re_d s =
     two_chars (\<lambda>c. c = CHR ''3'') (in_range CHR ''0'' CHR ''1'') s
     @ two_chars (in_range CHR ''1'' CHR ''2'') is_digit s
     @ two_chars (\<lambda>c. c = CHR ''0'') (in_range CHR ''1'' CHR ''9'') s
     @ one_char (in_range CHR ''1'' CHR ''9'') s
     @ concat (map (one_char (in_range CHR ''1'' CHR ''9'')) (lit CHR '' '' s))"

text \<open>
  The constructor \<^verbatim>\<open>datetime(year, month, day)\<close>: \<^verbatim>\<open>ValueError\<close> unless the year is in
  1..9999, the month in 1..12 and the day in the month.
\<close>

definition is_leap :: "nat \<Rightarrow> bool" where
  "is_leap y = (y mod 4 = 0 \<and> (y mod 100 \<noteq> 0 \<or> y mod 400 = 0))"

definition days_in_month :: "nat \<Rightarrow> nat \<Rightarrow> nat" where
  "days_in_month y m =
     (if m = 2 then (if is_leap y then 29 else 28)
      else if m = 4 \<or> m = 6 \<or> m = 9 \<or> m = 11 then 30 else 31)"

definition datetime :: "nat \<Rightarrow> nat \<Rightarrow> nat \<Rightarrow> error + (nat \<times> nat \<times> nat)" where
  "datetime y m d =
     (if 1 \<le> y \<and> y \<le> 9999 \<and> 1 \<le> m \<and> m \<le> 12 \<and> 1 \<le> d \<and> d \<le> days_in_month y m
      then Inr (y, m, d) else Inl ValueError)"

text \<open>
  \<^verbatim>\<open>datetime.strptime(s, '%Y-%m')\<close> and \<^verbatim>\<open>datetime.strptime(s, '%Y-%m-%d')\<close>: the
  first way the whole regular expression matches at the head of the string is taken;
  \<^verbatim>\<open>ValueError\<close> when there is none, when a part of the string is left over, and when
  the fields are no date.
\<close>

definition strptime_Ym :: "string \<Rightarrow> error + (nat \<times> nat \<times> nat)" where
  "strptime_Ym s =
     (case concat (map (\<lambda>(y, r1). concat (map (\<lambda>r2. map (\<lambda>(m, r3). (y, m, r3)) (re_m r2))
                                              (lit CHR ''-'' r1)))
                       (re_Y s)) of
        [] \<Rightarrow> Inl ValueError
      | (y, m, rest) # _ \<Rightarrow> if rest \<noteq> [] then Inl ValueError else datetime y m 1)"

definition strptime_Ymd :: "string \<Rightarrow> error + (nat \<times> nat \<times> nat)" where
  "strptime_Ymd s =
     (case concat (map (\<lambda>(y, r1). concat (map (\<lambda>r2. concat (map (\<lambda>(m, r3).
                         concat (map (\<lambda>r4. map (\<lambda>(d, r5). (y, m, d, r5)) (re_d r4))
                                     (lit CHR ''-'' r3)))
                         (re_m r2))) (lit CHR ''-'' r1)))
                       (re_Y s)) of
        [] \<Rightarrow> Inl ValueError
      | (y, m, d, rest) # _ \<Rightarrow> if rest \<noteq> [] then Inl ValueError else datetime y m d)"

text \<open>
  \<^verbatim>\<open>strftime\<close> hands the format to the C library. The C library of Linux (glibc)
  prints \<^verbatim>\<open>%Y\<close> as the decimal number of the year with no padding, so a year below
  1000 has fewer than four digits; \<^verbatim>\<open>%m\<close>, \<^verbatim>\<open>%d\<close>, \<^verbatim>\<open>%H\<close>, \<^verbatim>\<open>%M\<close> and \<^verbatim>\<open>%S\<close>
  are two digits, zero-padded. \<open>pad4\<close> is the year in four digits, zero-padded: what
  \<^verbatim>\<open>%Y\<close> prints from the year 1000 on.
\<close>

definition pad4 :: "nat \<Rightarrow> string" where
  "pad4 y = [digit_char (y div 1000), digit_char (y div 100), digit_char (y div 10), digit_char y]"

definition fmt_Y :: "nat \<Rightarrow> string" where
  "fmt_Y y =
     (if y < 10 then [digit_char y]
      else if y < 100 then [digit_char (y div 10), digit_char y]
      else if y < 1000 then [digit_char (y div 100), digit_char (y div 10), digit_char y]
      else pad4 y)"

definition fmt_2 :: "nat \<Rightarrow> string" where
  "fmt_2 m = [digit_char (m div 10), digit_char m]"

definition strftime_Ym :: "nat \<times> nat \<times> nat \<Rightarrow> string" where
  "strftime_Ym dt = (case dt of (y, m, d) \<Rightarrow> fmt_Y y @ ''-'' @ fmt_2 m)"

definition strftime_fname :: "nat \<times> nat \<times> nat \<Rightarrow> string" where
  "strftime_fname dt = (case dt of (y, m, d) \<Rightarrow> fmt_Y y @ ''/RC_'' @ fmt_Y y @ ''-'' @ fmt_2 m @ ''.bz2'')"

section \<open>\<^verbatim>\<open>_generate_filenames\<close>\<close>

text \<open>
  The body of the \<^verbatim>\<open>while\<close> loop up to the next \<^verbatim>\<open>yrmo\<close>: the date parsed from
  \<^verbatim>\<open>yrmo\<close> (\<^verbatim>\<open>%Y-%m\<close> first, \<^verbatim>\<open>%Y-%m-%d\<close> after a \<^verbatim>\<open>ValueError\<close>) and the first
  day of the month after it.
\<close>

definition parse_yrmo :: "string \<Rightarrow> error + (nat \<times> nat \<times> nat)" where
  "parse_yrmo yrmo =
     (case strptime_Ym yrmo of
        Inr dt \<Rightarrow> Inr dt
      | Inl ValueError \<Rightarrow> strptime_Ymd yrmo
      | Inl e \<Rightarrow> Inl e)"

definition next_month :: "nat \<times> nat \<times> nat \<Rightarrow> error + (nat \<times> nat \<times> nat)" where
  "next_month dt =
     (case dt of (y, m, d) \<Rightarrow>
        (let next_yr = y; next_mo = m + 1 in
         if next_mo > 12 then datetime (next_yr + 1) 1 1 else datetime next_yr next_mo 1))"

definition loop_step :: "string \<Rightarrow> error + ((nat \<times> nat \<times> nat) \<times> (nat \<times> nat \<times> nat))" where
  "loop_step yrmo =
     (case parse_yrmo yrmo of
        Inl e \<Rightarrow> Inl e
      | Inr dt \<Rightarrow> (case next_month dt of Inl e \<Rightarrow> Inl e | Inr nxt \<Rightarrow> Inr (dt, nxt)))"

lemma of_char_nth_digits:
  assumes "k < 10"
  shows "(of_char (''0123456789'' ! k) :: nat) = 48 + k"
proof -
  from assms have "k = 0 \<or> k = 1 \<or> k = 2 \<or> k = 3 \<or> k = 4 \<or> k = 5 \<or> k = 6 \<or> k = 7
      \<or> k = 8 \<or> k = 9" by arith
  then show ?thesis by (elim disjE) simp_all
qed

lemma of_char_digit_char: "(of_char (digit_char n) :: nat) = 48 + n mod 10"
  unfolding digit_char_def by (rule of_char_nth_digits) simp

lemma is_digit_digit_char: "is_digit (digit_char n)"
  by (simp add: is_digit_def of_char_digit_char)

lemma digit_val_digit_char: "digit_val (digit_char n) = n mod 10"
  by (simp add: digit_val_def of_char_digit_char)

lemma digits4:
  fixes y :: nat
  shows "1000 * (y div 1000) + 100 * (y div 100 mod 10) + 10 * (y div 10 mod 10) + y mod 10 = y"
proof -
  define q1 where "q1 = y div 10"
  define q2 where "q2 = q1 div 10"
  define q3 where "q3 = q2 div 10"
  define r0 where "r0 = y mod 10"
  define r1 where "r1 = q1 mod 10"
  define r2 where "r2 = q2 mod 10"
  have a: "y div 100 = q2" "y div 1000 = q3"
    by (simp_all add: q1_def q2_def q3_def div_mult2_eq[symmetric])
  have e0: "y = 10 * q1 + r0" by (simp add: q1_def r0_def)
  have e1: "q1 = 10 * q2 + r1" by (simp add: q2_def r1_def)
  have e2: "q2 = 10 * q3 + r2" by (simp add: q3_def r2_def)
  have "1000 * q3 + 100 * r2 + 10 * r1 + r0 = y"
    using e0 e1 e2 by linarith
  then show ?thesis
    by (simp only: a q1_def[symmetric] r0_def[symmetric] r1_def[symmetric] r2_def[symmetric])
qed

lemma fmt_Y_pad4: "1000 \<le> y \<Longrightarrow> fmt_Y y = pad4 y"
  by (simp add: fmt_Y_def)

lemma re_Y_pad4: "y \<le> 9999 \<Longrightarrow> re_Y (pad4 y @ r) = [(y, r)]"
  by (simp add: pad4_def is_digit_digit_char digit_val_digit_char digits4)

lemma re_Y_fmt_Y_small: "y < 1000 \<Longrightarrow> re_Y (fmt_Y y @ ''-'' @ fmt_2 m @ r) = []"
  by (simp add: fmt_Y_def fmt_2_def is_digit_def)

lemma re_m_fmt_2: "1 \<le> m \<Longrightarrow> m \<le> 12 \<Longrightarrow> \<exists>alts. re_m (fmt_2 m @ r) = (m, r) # alts"
proof -
  assume "1 \<le> m" "m \<le> 12"
  then have "m = 1 \<or> m = 2 \<or> m = 3 \<or> m = 4 \<or> m = 5 \<or> m = 6 \<or> m = 7 \<or> m = 8 \<or> m = 9
      \<or> m = 10 \<or> m = 11 \<or> m = 12" by arith
  then show ?thesis
    by (elim disjE) (simp_all add: re_m_def fmt_2_def digit_char_def in_range_def digit_val_def)
qed

lemma strptime_Ym_strftime_Ym:
  assumes "1000 \<le> y" "y \<le> 9999" "1 \<le> m" "m \<le> 12"
  shows "strptime_Ym (strftime_Ym (y, m, d)) = Inr (y, m, 1)"
proof -
  obtain alts where a: "re_m (fmt_2 m @ []) = (m, []) # alts"
    using re_m_fmt_2 [OF assms(3,4)] by blast
  have "datetime y m 1 = Inr (y, m, 1)"
    using assms by (simp add: datetime_def days_in_month_def)
  with a show ?thesis using assms(1,2)
    by (simp add: strptime_Ym_def strftime_Ym_def fmt_Y_pad4 re_Y_pad4)
qed

lemma parse_yrmo_strftime_Ym:
  "1000 \<le> y \<Longrightarrow> y \<le> 9999 \<Longrightarrow> 1 \<le> m \<Longrightarrow> m \<le> 12 \<Longrightarrow> parse_yrmo (strftime_Ym (y, m, d)) = Inr (y, m, 1)"
  by (simp add: parse_yrmo_def strptime_Ym_strftime_Ym)

text \<open>
  Below the year 1000 the next \<^verbatim>\<open>yrmo\<close> has a year of fewer than four digits, which
  neither format of \<^verbatim>\<open>strptime\<close> reads.
\<close>

lemma parse_yrmo_strftime_Ym_small:
  "y < 1000 \<Longrightarrow> parse_yrmo (strftime_Ym (y, m, d)) = Inl ValueError"
  using re_Y_fmt_Y_small [of y m "[]"]
  by (simp add: parse_yrmo_def strptime_Ym_def strptime_Ymd_def strftime_Ym_def)

text \<open>The months counted from year 0: the measure the loop climbs.\<close>

definition month_index :: "nat \<times> nat \<times> nat \<Rightarrow> nat" where
  "month_index dt = (case dt of (y, m, d) \<Rightarrow> 12 * y + m)"

lemma datetime_Inr: "datetime y m d = Inr dt \<Longrightarrow> dt = (y, m, d) \<and> 1 \<le> y \<and> y \<le> 9999 \<and> 1 \<le> m \<and> m \<le> 12"
  by (auto simp: datetime_def split: if_splits)

lemma strptime_Ym_Inr: "strptime_Ym s = Inr dt \<Longrightarrow> \<exists>y m d. datetime y m d = Inr dt"
  unfolding strptime_Ym_def by (simp split: list.splits prod.splits if_splits) blast

lemma strptime_Ymd_Inr: "strptime_Ymd s = Inr dt \<Longrightarrow> \<exists>y m d. datetime y m d = Inr dt"
  unfolding strptime_Ymd_def by (simp split: list.splits prod.splits if_splits) blast

lemma parse_yrmo_Inr:
  assumes "parse_yrmo s = Inr (y, m, d)"
  shows "1 \<le> y \<and> y \<le> 9999 \<and> 1 \<le> m \<and> m \<le> 12"
proof -
  from assms have "strptime_Ym s = Inr (y, m, d) \<or> strptime_Ymd s = Inr (y, m, d)"
    by (simp add: parse_yrmo_def split: sum.splits error.splits)
  then obtain y' m' d' where "datetime y' m' d' = Inr (y, m, d)"
    using strptime_Ym_Inr strptime_Ymd_Inr by blast
  from datetime_Inr [OF this] show ?thesis by simp
qed

lemma next_month_Inr:
  assumes "next_month (y, m, d) = Inr nxt" "1 \<le> m" "m \<le> 12"
  shows "month_index nxt = Suc (month_index (y, m, d)) \<and> month_index nxt \<le> 120000
     \<and> (parse_yrmo (strftime_Ym nxt) = Inr nxt \<or> parse_yrmo (strftime_Ym nxt) = Inl ValueError)"
proof -
  obtain y' m' where nxt: "nxt = (y', m', 1)" and v: "1 \<le> y'" "y' \<le> 9999" "1 \<le> m'" "m' \<le> 12"
    and ix: "12 * y' + m' = Suc (12 * y + m)"
  proof (cases "12 < m + 1")
    case True
    with assms have "datetime (y + 1) 1 1 = Inr nxt" by (simp add: next_month_def Let_def)
    from datetime_Inr [OF this] True assms(3) show ?thesis
      by (intro that [of "y + 1" 1]) simp_all
  next
    case False
    with assms have "datetime y (m + 1) 1 = Inr nxt" by (simp add: next_month_def Let_def)
    from datetime_Inr [OF this] show ?thesis
      by (intro that [of y "m + 1"]) simp_all
  qed
  have "parse_yrmo (strftime_Ym nxt) = Inr nxt \<or> parse_yrmo (strftime_Ym nxt) = Inl ValueError"
  proof (cases "1000 \<le> y'")
    case True
    with v show ?thesis by (simp add: nxt parse_yrmo_strftime_Ym)
  next
    case False
    then show ?thesis by (simp add: nxt parse_yrmo_strftime_Ym_small)
  qed
  moreover have "month_index nxt = Suc (month_index (y, m, d))"
    using ix by (simp add: nxt month_index_def)
  moreover have "month_index nxt \<le> 120000"
    using v by (simp add: nxt month_index_def)
  ultimately show ?thesis by simp
qed

lemma loop_step_decreases:
  assumes "loop_step yrmo = Inr (dt, nxt)"
  shows "parse_yrmo yrmo = Inr dt \<and> month_index nxt = Suc (month_index dt)
     \<and> month_index nxt \<le> 120000
     \<and> (parse_yrmo (strftime_Ym nxt) = Inr nxt \<or> parse_yrmo (strftime_Ym nxt) = Inl ValueError)"
proof -
  obtain y m d where dt: "dt = (y, m, d)" by (cases dt)
  from assms have p: "parse_yrmo yrmo = Inr dt" and n: "next_month dt = Inr nxt"
    by (auto simp: loop_step_def split: sum.splits)
  from parse_yrmo_Inr [of yrmo y m d] p dt have "1 \<le> m" "m \<le> 12" by simp_all
  with next_month_Inr [of y m d nxt] n dt p show ?thesis by simp
qed

text \<open>
  The \<^verbatim>\<open>while yrmo < end\<close> loop of \<^verbatim>\<open>_generate_filenames\<close>, with the list
  \<^verbatim>\<open>fnames\<close> as accumulator. An exception of \<^verbatim>\<open>strptime\<close> or of the
  \<^verbatim>\<open>datetime\<close> constructor leaves the function.
\<close>

function generate_loop :: "string \<Rightarrow> string \<Rightarrow> string list \<Rightarrow> error + string list" where
  "generate_loop yrmo end fnames =
     (if str_lt yrmo end then
        (case loop_step yrmo of
           Inl e \<Rightarrow> Inl e
         | Inr (dt, nxt) \<Rightarrow> generate_loop (strftime_Ym nxt) end (fnames @ [strftime_fname dt]))
      else Inr fnames)"
  by pat_completeness auto
termination
proof (relation "measure (\<lambda>(yrmo, e, fnames).
          case parse_yrmo yrmo of Inl _ \<Rightarrow> 0 | Inr dt \<Rightarrow> 120001 - month_index dt)")
  show "wf (measure (\<lambda>(yrmo, e, fnames).
          case parse_yrmo yrmo of Inl _ \<Rightarrow> 0 | Inr dt \<Rightarrow> 120001 - month_index dt))"
    by simp
next
  fix yrmo en :: string and fnames :: "string list" and x2 x y
  assume "str_lt yrmo en" "loop_step yrmo = Inr x2" "(x, y) = x2"
  then have "loop_step yrmo = Inr (x, y)" by simp
  from loop_step_decreases [OF this]
  have p: "parse_yrmo yrmo = Inr x" and s: "month_index y = Suc (month_index x)"
    and b: "month_index y \<le> 120000"
    and n: "parse_yrmo (strftime_Ym y) = Inr y \<or> parse_yrmo (strftime_Ym y) = Inl ValueError"
    by simp_all
  from n show "((strftime_Ym y, en, fnames @ [strftime_fname x]), yrmo, en, fnames)
       \<in> measure (\<lambda>(yrmo, e, fnames).
          case parse_yrmo yrmo of Inl _ \<Rightarrow> 0 | Inr dt \<Rightarrow> 120001 - month_index dt)"
  proof
    assume "parse_yrmo (strftime_Ym y) = Inr y"
    with p s b show ?thesis by simp
  next
    assume "parse_yrmo (strftime_Ym y) = Inl ValueError"
    with p s b show ?thesis by simp
  qed
qed

declare generate_loop.simps [simp del]

text \<open>\<^verbatim>\<open>_generate_filenames(date_range)\<close>, the tuple of file names as a list.\<close>

definition generate_filenames :: "string \<times> string \<Rightarrow> error + string list" where
  "generate_filenames date_range = (case date_range of (yrmo, end) \<Rightarrow> generate_loop yrmo end [])"


section \<open>Timestamps: \<^verbatim>\<open>_convert_timestamp\<close>\<close>

text \<open>
  \<^verbatim>\<open>int(s)\<close> on a string. CPython first turns every white-space character above
  U+007E into a blank (up to U+00FF these are U+0085 and U+00A0), then skips the
  characters of \<^verbatim>\<open>Py_ISSPACE\<close>, U+0009 to U+000D and the blank, at both ends of the
  literal. The separators U+001C to U+001F, white space for \<^verbatim>\<open>str.isspace\<close>, are not
  skipped: \<^verbatim>\<open>int('\x1c12')\<close> is a \<^verbatim>\<open>ValueError\<close> and \<^verbatim>\<open>int('\xa012')\<close> is 12.
\<close>

definition is_int_space :: "char \<Rightarrow> bool" where
  "is_int_space c = ((9 \<le> (of_char c :: nat) \<and> (of_char c :: nat) \<le> 13)
                     \<or> (of_char c :: nat) = 32
                     \<or> (of_char c :: nat) = 133 \<or> (of_char c :: nat) = 160)"

definition strip_int :: "string \<Rightarrow> string" where
  "strip_int s = rev (dropWhile is_int_space (rev (dropWhile is_int_space s)))"

text \<open>
  After the white space a sign may come first, then decimal digits, a single underscore
  allowed between two digits; anything else is a \<^verbatim>\<open>ValueError\<close>.
  \<open>int_digits acc prev\<close> reads the digits, \<open>prev\<close> telling whether the character before
  was a digit. A literal of more than 4300 digits (the default of
  \<^verbatim>\<open>sys.get_int_max_str_digits()\<close>; underscores and the sign do not count) is a
  \<^verbatim>\<open>ValueError\<close> too.
\<close>

definition MAX_STR_DIGITS :: nat where
  "MAX_STR_DIGITS = 4300"

fun int_digits :: "int \<Rightarrow> bool \<Rightarrow> string \<Rightarrow> int option" where
  "int_digits acc prev [] = (if prev then Some acc else None)"
| "int_digits acc prev (c # cs) =
     (if is_digit c then int_digits (10 * acc + int (digit_val c)) True cs
      else if c = CHR ''_'' \<and> prev then int_digits acc False cs
      else None)"

definition int_of_digits :: "string \<Rightarrow> int option" where
  "int_of_digits ds =
     (if MAX_STR_DIGITS < length (filter is_digit ds) then None else int_digits 0 False ds)"

definition int_of_str :: "string \<Rightarrow> error + int" where
  "int_of_str s =
     (case strip_int s of
        [] \<Rightarrow> Inl ValueError
      | c # r \<Rightarrow>
          (case (if c = CHR ''-'' then map_option uminus (int_of_digits r)
                 else if c = CHR ''+'' then int_of_digits r
                 else int_of_digits (c # r)) of
             None \<Rightarrow> Inl ValueError
           | Some i \<Rightarrow> Inr i))"

text \<open>\<^verbatim>\<open>int(timestamp)\<close> on a value of a JSON line: \<^verbatim>\<open>int(None)\<close> is a \<^verbatim>\<open>TypeError\<close>.\<close>

fun py_int :: "jval \<Rightarrow> error + int" where
  "py_int JNull = Inl TypeError"
| "py_int (JInt i) = Inr i"
| "py_int (JStr s) = int_of_str s"

text \<open>
  \<^verbatim>\<open>datetime.utcfromtimestamp(t)\<close> for an integer \<open>t\<close>: the civil date of the day
  \<open>t div 86400\<close> after 1970-01-01 in the proleptic Gregorian calendar, and the time of
  day. The date is computed in 400-year eras counted from 0000-03-01: the day of the era,
  the year of the era, the day of that year and the month counted from March. \<^verbatim>\<open>OverflowError\<close> when \<open>t\<close> is no 64-bit \<^verbatim>\<open>time_t\<close>, \<^verbatim>\<open>OSError\<close> when the
  year does not fit the \<^verbatim>\<open>int\<close> field of C's \<^verbatim>\<open>struct tm\<close>, \<^verbatim>\<open>ValueError\<close> when the
  year is outside 1..9999.
\<close>

definition era_of :: "int \<Rightarrow> int" where
  "era_of z = z div 146097"

definition doe_of :: "int \<Rightarrow> int" where
  "doe_of z = z - era_of z * 146097"

definition yoe_of :: "int \<Rightarrow> int" where
  "yoe_of doe = (doe - doe div 1460 + doe div 36524 - doe div 146096) div 365"

definition doy_of :: "int \<Rightarrow> int" where
  "doy_of doe = doe - (365 * yoe_of doe + yoe_of doe div 4 - yoe_of doe div 100)"

definition mp_of :: "int \<Rightarrow> int" where
  "mp_of doy = (5 * doy + 2) div 153"

definition day_of :: "int \<Rightarrow> int" where
  "day_of doy = doy - (153 * mp_of doy + 2) div 5 + 1"

definition month_of :: "int \<Rightarrow> int" where
  "month_of doy = (if mp_of doy < 10 then mp_of doy + 3 else mp_of doy - 9)"

definition year_of :: "int \<Rightarrow> int" where
  "year_of z =
     yoe_of (doe_of z) + era_of z * 400 + (if month_of (doy_of (doe_of z)) \<le> 2 then 1 else 0)"

definition civil_from_days :: "int \<Rightarrow> int \<times> int \<times> int" where
  "civil_from_days days =
     (year_of (days + 719468), month_of (doy_of (doe_of (days + 719468))),
      day_of (doy_of (doe_of (days + 719468))))"

definition utcfromtimestamp :: "int \<Rightarrow> error + (int \<times> int \<times> int \<times> int \<times> int \<times> int)" where
  "utcfromtimestamp t =
     (if t < - (2 ^ 63) \<or> 2 ^ 63 \<le> t then Inl OverflowError
      else (case civil_from_days (t div 86400) of (y, m, d) \<Rightarrow>
        if y - 1900 < - (2 ^ 31) \<or> 2 ^ 31 \<le> y - 1900 then Inl OSError
        else if y < 1 \<or> 9999 < y then Inl ValueError
        else Inr (y, m, d, t mod 86400 div 3600, t mod 3600 div 60, t mod 60)))"

text \<open>\<^verbatim>\<open>strftime('%Y-%m-%dT%H:%M:%S')\<close>.\<close>

definition strftime_iso :: "int \<times> int \<times> int \<times> int \<times> int \<times> int \<Rightarrow> string" where
  "strftime_iso dt =
     (case dt of (y, m, d, hh, mm, ss) \<Rightarrow>
        fmt_Y (nat y) @ ''-'' @ fmt_2 (nat m) @ ''-'' @ fmt_2 (nat d) @ ''T''
        @ fmt_2 (nat hh) @ '':'' @ fmt_2 (nat mm) @ '':'' @ fmt_2 (nat ss))"

text \<open>
  \<^verbatim>\<open>_convert_timestamp\<close>: the \<^verbatim>\<open>try\<close> block catches \<^verbatim>\<open>ValueError\<close> and
  \<^verbatim>\<open>TypeError\<close> and returns the empty string; any other exception leaves the function.
\<close>

definition convert_timestamp :: "jval \<Rightarrow> error + string" where
  "convert_timestamp timestamp =
     (case (case py_int timestamp of
              Inl e \<Rightarrow> Inl e
            | Inr t \<Rightarrow> (case utcfromtimestamp t of Inl e \<Rightarrow> Inl e | Inr dt \<Rightarrow> Inr (strftime_iso dt))) of
        Inl ValueError \<Rightarrow> Inr []
      | Inl TypeError \<Rightarrow> Inr []
      | Inl e \<Rightarrow> Inl e
      | Inr s \<Rightarrow> Inr s)"

section \<open>Cleaning the text: \<^verbatim>\<open>_clean_content\<close>\<close>

definition strip_prefix :: "string \<Rightarrow> string \<Rightarrow> string option" where
  "strip_prefix p s = (if take (length p) s = p then Some (drop (length p) s) else None)"

text \<open>
  \<^verbatim>\<open>REDDIT_LINK_RE\<close> is \<^verbatim>\<open>\[([^]]+)\]\(https?://[^\)]+\)\<close>. \<open>match_link s\<close> matches it
  at the head of \<open>s\<close> and gives group 1 and the string after the match. Each of the two
  character classes excludes the character that must follow it, so the greedy run is
  the longest one and no shorter run matches.
\<close>

definition match_link :: "string \<Rightarrow> (string \<times> string) option" where
  "match_link s =
     (case strip_prefix ''['' s of
        None \<Rightarrow> None
      | Some r \<Rightarrow>
          (let label = takeWhile (\<lambda>c. c \<noteq> CHR '']'') r;
               r1 = dropWhile (\<lambda>c. c \<noteq> CHR '']'') r
           in if label = [] then None
              else (case strip_prefix ''](http'' r1 of
                 None \<Rightarrow> None
               | Some r2 \<Rightarrow>
                   (case (case strip_prefix ''s://'' r2 of
                            Some r3 \<Rightarrow> Some r3
                          | None \<Rightarrow> strip_prefix ''://'' r2) of
                      None \<Rightarrow> None
                    | Some r3 \<Rightarrow>
                        (let url = takeWhile (\<lambda>c. c \<noteq> CHR '')'') r3;
                             r4 = dropWhile (\<lambda>c. c \<noteq> CHR '')'') r3
                         in if url = [] then None
                            else (case strip_prefix '')'' r4 of
                                    None \<Rightarrow> None
                                  | Some rest \<Rightarrow> Some (label, rest)))))))"

lemma strip_prefix_length: "strip_prefix p s = Some r \<Longrightarrow> length s = length p + length r"
proof -
  assume "strip_prefix p s = Some r"
  then have "take (length p) s = p" "r = drop (length p) s"
    by (auto simp: strip_prefix_def split: if_splits)
  then have "s = p @ r" by (metis append_take_drop_id)
  then show ?thesis by simp
qed

lemma match_link_shorter:
  assumes "match_link s = Some (label, rest)"
  shows "length rest < length s"
proof -
  from assms obtain r r2 r3 where
    r: "strip_prefix ''['' s = Some r"
    and r2: "strip_prefix ''](http'' (dropWhile (\<lambda>c. c \<noteq> CHR '']'') r) = Some r2"
    and r3: "strip_prefix ''s://'' r2 = Some r3 \<or> strip_prefix ''://'' r2 = Some r3"
    and r4: "strip_prefix '')'' (dropWhile (\<lambda>c. c \<noteq> CHR '')'') r3) = Some rest"
    by (auto simp: match_link_def Let_def split: option.splits if_splits)
  have "length rest \<le> length (dropWhile (\<lambda>c. c \<noteq> CHR '')'') r3)"
    using strip_prefix_length [OF r4] by simp
  also have "\<dots> \<le> length r3" by (rule length_dropWhile_le)
  also have "\<dots> \<le> length r2" using r3 by (auto dest: strip_prefix_length)
  also have "\<dots> \<le> length (dropWhile (\<lambda>c. c \<noteq> CHR '']'') r)"
    using strip_prefix_length [OF r2] by simp
  also have "\<dots> \<le> length r" by (rule length_dropWhile_le)
  also have "\<dots> < length s" using strip_prefix_length [OF r] by simp
  finally show ?thesis .
qed

text \<open>
  \<^verbatim>\<open>REDDIT_LINK_RE.sub(r'\1', content)\<close>: from left to right, a match is replaced by
  its group 1 and the scan goes on after the match; where there is no match the
  character is kept.
\<close>

function sub_links :: "string \<Rightarrow> string" where
  "sub_links [] = []"
| "sub_links (c # cs) =
     (case match_link (c # cs) of
        Some (label, rest) \<Rightarrow> label @ sub_links rest
      | None \<Rightarrow> c # sub_links cs)"
  by pat_completeness auto
termination
proof (relation "measure length")
  fix c cs x2 x y
  assume "match_link (c # cs) = Some x2" "(x, y) = x2"
  then have "match_link (c # cs) = Some (x, y)" by simp
  from match_link_shorter [OF this] show "(y, c # cs) \<in> measure length" by simp
qed simp_all

declare sub_links.simps [simp del]

text \<open>
  \<^verbatim>\<open>str.replace(old, new)\<close>: the occurrences of \<open>old\<close> from left to right, without
  overlap. With an empty \<open>old\<close>, \<open>new\<close> is put before every character and at the end.
\<close>

function replace_str :: "string \<Rightarrow> string \<Rightarrow> string \<Rightarrow> string" where
  "replace_str old new s =
     (if old = [] then new @ concat (map (\<lambda>c. c # new) s)
      else if s = [] then []
      else if take (length old) s = old then new @ replace_str old new (drop (length old) s)
      else hd s # replace_str old new (tl s))"
  by pat_completeness auto
termination
  by (relation "measure (\<lambda>(old, new, s). length s)") auto

declare replace_str.simps [simp del]

text \<open>
  The characters for which Python's \<^verbatim>\<open>str.isspace\<close> holds, up to U+00FF, and
  \<^verbatim>\<open>str.strip()\<close>, which drops them at both ends.
\<close>

definition is_space :: "char \<Rightarrow> bool" where
  "is_space c = ((9 \<le> (of_char c :: nat) \<and> (of_char c :: nat) \<le> 13)
                 \<or> (28 \<le> (of_char c :: nat) \<and> (of_char c :: nat) \<le> 32)
                 \<or> (of_char c :: nat) = 133 \<or> (of_char c :: nat) = 160)"

definition strip :: "string \<Rightarrow> string" where
  "strip s = rev (dropWhile is_space (rev (dropWhile is_space s)))"

text \<open>
  Modelled from the spec: \<^verbatim>\<open>normalize_whitespace\<close> of \<^verbatim>\<open>textacy.preprocess\<close>, which is
  not among the source files. The specification has it collapse all whitespace runs
  (including newlines) to single spaces and trim leading and trailing whitespace.
\<close>

fun collapse_spaces :: "bool \<Rightarrow> string \<Rightarrow> string" where
  "collapse_spaces in_run [] = []"
| "collapse_spaces in_run (c # cs) =
     (if is_space c then (if in_run then collapse_spaces True cs
                          else CHR '' '' # collapse_spaces True cs)
      else c # collapse_spaces False cs)"

definition normalize_whitespace :: "string \<Rightarrow> string" where
  "normalize_whitespace s = strip (collapse_spaces False s)"

text \<open>\<^verbatim>\<open>_clean_content\<close>, statement by statement.\<close>

definition clean_content :: "string \<Rightarrow> string" where
  "clean_content content =
     (let content = sub_links content;
          content = replace_str ''&lt;'' ''<'' (replace_str ''&gt;'' ''>'' content);
          content = replace_str ''~'' '''' (replace_str ''*'' '''' (replace_str [CHR 0x60] '''' content))
      in normalize_whitespace content)"

section \<open>The files of the dataset\<close>

text \<open>
  The functions \<^verbatim>\<open>get_filenames\<close> and \<^verbatim>\<open>read_json_lines\<close> of \<^verbatim>\<open>textacy.fileio\<close> are
  not among the source files; what they return is a parameter. \<open>found\<close> is \<open>None\<close> when
  the directory \<^verbatim>\<open>data_dir\<close> does not exist, and otherwise the paths of the \<^verbatim>\<open>.bz2\<close>
  files found under it; \<open>read_json_lines\<close> gives the parsed lines of a file.
\<close>

record disk =
  found :: "string list option"
  read_json_lines :: "string \<Rightarrow> jrecord list"

text \<open>\<^verbatim>\<open>sorted\<close> on strings.\<close>

fun insort_str :: "string \<Rightarrow> string list \<Rightarrow> string list" where
  "insort_str x [] = [x]"
| "insort_str x (y # ys) = (if str_lt y x then y # insort_str x ys else x # y # ys)"

definition sorted_str :: "string list \<Rightarrow> string list" where
  "sorted_str xs = foldr insort_str xs []"

text \<open>The property \<^verbatim>\<open>filenames\<close>.\<close>

definition filenames :: "disk \<Rightarrow> string list" where
  "filenames dk = (case found dk of Some fs \<Rightarrow> sorted_str fs | None \<Rightarrow> [])"

text \<open>\<^verbatim>\<open>os.path.join\<close> of two components, on POSIX.\<close>

definition path_join :: "string \<Rightarrow> string \<Rightarrow> string" where
  "path_join a b =
     (if take 1 b = ''/'' then b
      else if a = [] \<or> last a = CHR ''/'' then a @ b
      else a @ ''/'' @ b)"

section \<open>The filters on a line\<close>

text \<open>
  The argument \<^verbatim>\<open>subreddit\<close>: \<^verbatim>\<open>None\<close>, a string, a list or tuple of strings, or a set
  of strings. A string becomes the set of that string and a list its set of items; a
  false value (\<^verbatim>\<open>None\<close>, an empty string, list or set) filters nothing, which is
  \<open>None\<close> here.
\<close>

datatype subreddit_arg =
    SubNone
  | SubStr string
  | SubList "string list"
  | SubSet "string set"

fun normalize_subreddit :: "subreddit_arg \<Rightarrow> string set option" where
  "normalize_subreddit SubNone = None"
| "normalize_subreddit (SubStr s) = (if s = [] then None else Some {s})"
| "normalize_subreddit (SubList l) = (if l = [] then None else Some (set l))"
| "normalize_subreddit (SubSet S) = (if S = {} then None else Some S)"

text \<open>What the generator yields: the text of a comment, or the whole line.\<close>

datatype item = Text string | Record jrecord

datatype outcome = Skip | Yield item | Raise error

text \<open>\<^verbatim>\<open>line.get(key, '')\<close>.\<close>

definition get_or_empty :: "jrecord \<Rightarrow> string \<Rightarrow> jval" where
  "get_or_empty line key = (case line key of None \<Rightarrow> JStr [] | Some v \<Rightarrow> v)"

text \<open>
  \<^verbatim>\<open>subreddit and line['subreddit'] not in subreddit\<close>: whether the line is skipped, or
  the \<^verbatim>\<open>KeyError\<close> of a line without the key.
\<close>

definition subreddit_skips :: "string set option \<Rightarrow> jrecord \<Rightarrow> error + bool" where
  "subreddit_skips subreddit line =
     (case subreddit of
        None \<Rightarrow> Inr False
      | Some S \<Rightarrow>
          (case line ''subreddit'' of
             None \<Rightarrow> Inl (KeyError ''subreddit'')
           | Some (JStr s) \<Rightarrow> Inr (s \<notin> S)
           | Some _ \<Rightarrow> Inr True))"

text \<open>
  \<^verbatim>\<open>score_range and not score_range[0] <= line['score'] < score_range[1]\<close>; comparing
  an integer with \<^verbatim>\<open>None\<close> or a string is a \<^verbatim>\<open>TypeError\<close>.
\<close>

definition score_skips :: "(int \<times> int) option \<Rightarrow> jrecord \<Rightarrow> error + bool" where
  "score_skips score_range line =
     (case score_range of
        None \<Rightarrow> Inr False
      | Some (lo, hi) \<Rightarrow>
          (case line ''score'' of
             None \<Rightarrow> Inl (KeyError ''score'')
           | Some (JInt score) \<Rightarrow> Inr (\<not> (lo \<le> score \<and> score < hi))
           | Some _ \<Rightarrow> Inl TypeError))"

text \<open>\<^verbatim>\<open>date_range and not date_range[0] <= line['created_utc'] < date_range[1]\<close>.\<close>

definition date_skips :: "(string \<times> string) option \<Rightarrow> string \<Rightarrow> bool" where
  "date_skips date_range created =
     (case date_range of
        None \<Rightarrow> False
      | Some (lo, hi) \<Rightarrow> \<not> (str_le lo created \<and> str_lt created hi))"

text \<open>
  \<^verbatim>\<open>_clean_content(line['body'])\<close>: \<^verbatim>\<open>KeyError\<close> without the key, and the
  \<^verbatim>\<open>TypeError\<close> of \<^verbatim>\<open>re.sub\<close> on a value that is no string.
\<close>

definition clean_body :: "jrecord \<Rightarrow> error + string" where
  "clean_body line =
     (case line ''body'' of
        None \<Rightarrow> Inl (KeyError ''body'')
      | Some (JStr b) \<Rightarrow> Inr (clean_content b)
      | Some _ \<Rightarrow> Inl TypeError)"

text \<open>
  The body of the inner \<^verbatim>\<open>for\<close> loop of \<^verbatim>\<open>_iterate\<close> up to the \<^verbatim>\<open>yield\<close>: the line
  as the statements leave it, and whether the line is skipped (\<^verbatim>\<open>continue\<close>), yielded,
  or an exception is raised.
\<close>

definition process_line ::
  "string set option \<Rightarrow> (int \<times> int) option \<Rightarrow> (string \<times> string) option \<Rightarrow> int \<Rightarrow> bool
     \<Rightarrow> jrecord \<Rightarrow> jrecord \<times> outcome" where
  "process_line subreddit score_range date_range min_len text_only line =
     (case subreddit_skips subreddit line of
        Inl e \<Rightarrow> (line, Raise e)
      | Inr True \<Rightarrow> (line, Skip)
      | Inr False \<Rightarrow>
     (case score_skips score_range line of
        Inl e \<Rightarrow> (line, Raise e)
      | Inr True \<Rightarrow> (line, Skip)
      | Inr False \<Rightarrow>
     (case convert_timestamp (get_or_empty line ''created_utc'') of
        Inl e \<Rightarrow> (line, Raise e)
      | Inr created \<Rightarrow>
     (let line1 = line(''created_utc'' \<mapsto> JStr created) in
      if date_skips date_range created then (line1, Skip)
      else
     (case clean_body line1 of
        Inl e \<Rightarrow> (line1, Raise e)
      | Inr body \<Rightarrow>
     (let line2 = line1(''body'' \<mapsto> JStr body) in
      if min_len \<noteq> 0 \<and> int (length body) < min_len then (line2, Skip)
      else if text_only then (line2, Yield (Text body))
      else
     (case convert_timestamp (get_or_empty line2 ''retrieved_on'') of
        Inl e \<Rightarrow> (line2, Raise e)
      | Inr retrieved \<Rightarrow>
     (let line3 = line2(''retrieved_on'' \<mapsto> JStr retrieved) in
      (line3, Yield (Record line3))))))))))"

section \<open>The generator \<^verbatim>\<open>_iterate\<close>\<close>

text \<open>
  A generator over finite files is the list of the items it yields and the exception
  that ends it, if one does. \<open>lines_loop\<close> is the inner loop over the lines of one
  file, from the count \<open>n\<close>: it gives the items, the count after the loop and the
  exception. The loop is left by \<^verbatim>\<open>break\<close> when the count, just incremented, equals
  \<open>limit\<close>.
\<close>

fun lines_loop ::
  "(jrecord \<Rightarrow> jrecord \<times> outcome) \<Rightarrow> int \<Rightarrow> int \<Rightarrow> jrecord list \<Rightarrow> item list \<times> int \<times> error option" where
  "lines_loop body limit n [] = ([], n, None)"
| "lines_loop body limit n (line # rest) =
     (case snd (body line) of
        Skip \<Rightarrow> lines_loop body limit n rest
      | Raise e \<Rightarrow> ([], n, Some e)
      | Yield it \<Rightarrow>
          (if n + 1 = limit then ([it], n + 1, None)
           else (case lines_loop body limit (n + 1) rest of
                   (items, n', err) \<Rightarrow> (it # items, n', err))))"

text \<open>
  The outer loop over the files: after the inner loop, \<^verbatim>\<open>if n == limit: break\<close>.
\<close>

fun files_loop ::
  "(string \<Rightarrow> jrecord list) \<Rightarrow> (jrecord \<Rightarrow> jrecord \<times> outcome) \<Rightarrow> int \<Rightarrow> int \<Rightarrow> string list
     \<Rightarrow> item list \<times> error option" where
  "files_loop rd body limit n [] = ([], None)"
| "files_loop rd body limit n (filepath # rest) =
     (case lines_loop body limit n (rd filepath) of
        (items, n', Some e) \<Rightarrow> (items, Some e)
      | (items, n', None) \<Rightarrow>
          (if n' = limit then (items, None)
           else (case files_loop rd body limit n' rest of
                   (items', err) \<Rightarrow> (items @ items', err))))"

text \<open>Truth value of a range argument: \<^verbatim>\<open>None\<close> and the empty tuple are false.\<close>

fun truthy_range :: "'a list option \<Rightarrow> bool" where
  "truthy_range None = False"
| "truthy_range (Some xs) = (xs \<noteq> [])"

text \<open>
  The files to read: with a date range, the files of \<^verbatim>\<open>filenames\<close> whose path is
  among the joined names of \<^verbatim>\<open>_generate_filenames\<close>; without, all of \<^verbatim>\<open>filenames\<close>.
  The result holds the parsed date range as well.
\<close>

definition select_filepaths ::
  "string \<Rightarrow> disk \<Rightarrow> string option list option
     \<Rightarrow> error + ((string \<times> string) option \<times> string list)" where
  "select_filepaths data_dir dk date_range =
     (if truthy_range date_range then
        (case parse_date_range date_range of
           Inl e \<Rightarrow> Inl e
         | Inr dr \<Rightarrow>
             (case generate_filenames dr of
                Inl e \<Rightarrow> Inl e
              | Inr fnames \<Rightarrow>
                  Inr (Some dr,
                       filter (\<lambda>fname. fname \<in> set (map (path_join data_dir) fnames))
                              (filenames dk))))
      else Inr (None, filenames dk))"

definition iterate ::
  "string \<Rightarrow> disk \<Rightarrow> bool \<Rightarrow> subreddit_arg \<Rightarrow> string option list option
     \<Rightarrow> int option list option \<Rightarrow> int \<Rightarrow> int \<Rightarrow> item list \<times> error option" where
  "iterate data_dir dk text_only subreddit date_range score_range min_len limit =
     (case (if truthy_range score_range
            then map_sum id Some (parse_score_range score_range) else Inr None) of
        Inl e \<Rightarrow> ([], Some e)
      | Inr score_range' \<Rightarrow>
     (case select_filepaths data_dir dk date_range of
        Inl e \<Rightarrow> ([], Some e)
      | Inr (date_range', filepaths) \<Rightarrow>
          if filepaths = [] then ([], Some (IOError data_dir date_range'))
          else files_loop (read_json_lines dk)
                 (process_line (normalize_subreddit subreddit) score_range' date_range'
                    min_len text_only)
                 limit 0 filepaths))"

text \<open>The public generators \<^verbatim>\<open>texts\<close> and \<^verbatim>\<open>records\<close>.\<close>

definition texts ::
  "string \<Rightarrow> disk \<Rightarrow> subreddit_arg \<Rightarrow> string option list option
     \<Rightarrow> int option list option \<Rightarrow> int \<Rightarrow> int \<Rightarrow> item list \<times> error option" where
  "texts data_dir dk subreddit date_range score_range min_len limit =
     iterate data_dir dk True subreddit date_range score_range min_len limit"


section \<open>The months of a date range\<close>

text \<open>
  The reading of the claims about \<^verbatim>\<open>_generate_filenames\<close>: a string is in the form
  YYYY-MM when it is four digits, a hyphen and two digits, with a year from 0001 and a
  month from 01 to 12. Its month number counts the months from year 0 (the year 1000
  starts at month number 12000), and \<open>monthly_filename\<close> is the name
  \<^verbatim>\<open>YYYY/RC_YYYY-MM.bz2\<close>, with the year in four digits, of the month with a given
  number.
\<close>

fun fields_YYYY_MM :: "string \<Rightarrow> (nat \<times> nat) option" where
  "fields_YYYY_MM [a, b, c, d, h, p, q] =
     (if is_digit a \<and> is_digit b \<and> is_digit c \<and> is_digit d \<and> h = CHR ''-''
         \<and> is_digit p \<and> is_digit q
      then Some (1000 * digit_val a + 100 * digit_val b + 10 * digit_val c + digit_val d,
                 10 * digit_val p + digit_val q)
      else None)"
| "fields_YYYY_MM _ = None"

definition is_YYYY_MM :: "string \<Rightarrow> bool" where
  "is_YYYY_MM s =
     (case fields_YYYY_MM s of None \<Rightarrow> False | Some (y, m) \<Rightarrow> 1 \<le> y \<and> 1 \<le> m \<and> m \<le> 12)"

definition month_number :: "string \<Rightarrow> nat" where
  "month_number s = (case fields_YYYY_MM s of None \<Rightarrow> 0 | Some (y, m) \<Rightarrow> 12 * y + (m - 1))"

definition monthly_filename :: "nat \<Rightarrow> string" where
  "monthly_filename k =
     pad4 (k div 12) @ ''/RC_'' @ pad4 (k div 12) @ ''-'' @ fmt_2 (k mod 12 + 1) @ ''.bz2''"

definition month_of_number :: "nat \<Rightarrow> nat \<times> nat \<times> nat" where
  "month_of_number k = (k div 12, k mod 12 + 1, 1)"

lemma str_lt_irrefl: "\<not> str_lt s s"
  by (induction s) simp_all

lemma str_lt_append_same: "str_lt (p @ a) (p @ b) = str_lt a b"
  by (induction p) simp_all

lemma str_lt_append_lt:
  "length a = length b \<Longrightarrow> str_lt a b \<Longrightarrow> str_lt (a @ c) (b @ d)"
  by (induction a b rule: list_induct2) (auto split: if_splits)

lemma digit_char_eq_iff: "digit_char p = digit_char q \<longleftrightarrow> p mod 10 = q mod 10"
proof
  assume "digit_char p = digit_char q"
  then have "(of_char (digit_char p) :: nat) = of_char (digit_char q)" by simp
  then show "p mod 10 = q mod 10" by (simp add: of_char_digit_char)
next
  assume "p mod 10 = q mod 10"
  then show "digit_char p = digit_char q" by (simp add: digit_char_def)
qed

lemma str_lt_pad4:
  assumes "y < y'" "y' \<le> 9999"
  shows "str_lt (pad4 y) (pad4 y')"
proof -
  define a where "a = y div 1000"
  define b where "b = y div 100 mod 10"
  define c where "c = y div 10 mod 10"
  define d where "d = y mod 10"
  define a' where "a' = y' div 1000"
  define b' where "b' = y' div 100 mod 10"
  define c' where "c' = y' div 10 mod 10"
  define d' where "d' = y' mod 10"
  have y: "y = 1000 * a + 100 * b + 10 * c + d"
    unfolding a_def b_def c_def d_def by (rule digits4 [symmetric])
  have y': "y' = 1000 * a' + 100 * b' + 10 * c' + d'"
    unfolding a'_def b'_def c'_def d'_def by (rule digits4 [symmetric])
  have bnd: "b < 10" "c < 10" "d < 10" "b' < 10" "c' < 10" "d' < 10"
    by (simp_all add: b_def c_def d_def b'_def c'_def d'_def)
  have a10: "a < 10" "a' < 10" using assms y y' by linarith+
  have am: "a mod 10 = a" "a' mod 10 = a'"
    using a10 by simp_all
  have lex: "a < a' \<or> (a = a' \<and> (b < b' \<or> (b = b' \<and> (c < c' \<or> (c = c' \<and> d < d')))))"
    using assms(1) y y' bnd by linarith
  have "str_lt [digit_char a, digit_char b, digit_char c, digit_char d]
               [digit_char a', digit_char b', digit_char c', digit_char d']"
    using lex bnd by (auto simp: digit_char_eq_iff of_char_digit_char am)
  moreover have "pad4 y = [digit_char a, digit_char b, digit_char c, digit_char d]"
    by (simp add: pad4_def a_def b_def c_def d_def digit_char_def)
  moreover have "pad4 y' = [digit_char a', digit_char b', digit_char c', digit_char d']"
    by (simp add: pad4_def a'_def b'_def c'_def d'_def digit_char_def)
  ultimately show ?thesis by simp
qed

lemma str_lt_fmt_2:
  assumes "m < m'" "m' \<le> 99"
  shows "str_lt (fmt_2 m) (fmt_2 m')"
proof -
  define q where "q = m div 10"
  define r where "r = m mod 10"
  define q' where "q' = m' div 10"
  define r' where "r' = m' mod 10"
  have m: "m = 10 * q + r" and m': "m' = 10 * q' + r'"
    by (simp_all add: q_def r_def q'_def r'_def)
  have bnd: "r < 10" "r' < 10" by (simp_all add: r_def r'_def)
  have q10: "q < 10" "q' < 10" using assms m m' by linarith+
  then have qm: "q mod 10 = q" "q' mod 10 = q'" by simp_all
  have lex: "q < q' \<or> (q = q' \<and> r < r')"
    using assms(1) m m' bnd by linarith
  have "str_lt [digit_char q, digit_char r] [digit_char q', digit_char r']"
    using lex bnd by (auto simp: digit_char_eq_iff of_char_digit_char qm)
  moreover have "fmt_2 m = [digit_char q, digit_char r]"
    by (simp add: fmt_2_def q_def r_def digit_char_def)
  moreover have "fmt_2 m' = [digit_char q', digit_char r']"
    by (simp add: fmt_2_def q'_def r'_def digit_char_def)
  ultimately show ?thesis by simp
qed

lemma length_pad4: "length (pad4 y) = 4"
  by (simp add: pad4_def)

lemma year_of_month_number: "12000 \<le> k \<Longrightarrow> 1000 \<le> k div (12 :: nat)"
  by (simp add: less_eq_div_iff_mult_less_eq)

lemma strftime_Ym_month_of_number:
  "12000 \<le> k \<Longrightarrow>
   strftime_Ym (month_of_number k) = pad4 (k div 12) @ ''-'' @ fmt_2 (k mod 12 + 1)"
  by (simp add: strftime_Ym_def month_of_number_def fmt_Y_pad4 year_of_month_number)

lemma str_lt_strftime_Ym:
  assumes "12000 \<le> i" "i < j" "j \<le> 12 * 9999 + 11"
  shows "str_lt (strftime_Ym (month_of_number i)) (strftime_Ym (month_of_number j))"
proof -
  have j: "12000 \<le> j" using assms by simp
  note eq = strftime_Ym_month_of_number [OF assms(1)] strftime_Ym_month_of_number [OF j]
  show ?thesis
  proof (cases "i div 12 = j div 12")
    case True
    with assms have "i mod 12 + 1 < j mod 12 + 1"
      by (metis add_less_cancel_right div_mult_mod_eq nat_add_left_cancel_less)
    then have "str_lt (fmt_2 (i mod 12 + 1)) (fmt_2 (j mod 12 + 1))"
      by (rule str_lt_fmt_2) simp
    with True show ?thesis
      by (simp add: eq str_lt_append_same)
  next
    case False
    with assms have lt: "i div 12 < j div 12"
      by (meson div_le_mono less_imp_le_nat le_neq_implies_less)
    have "j div 12 \<le> 9999" using assms(3) by simp
    with lt have "str_lt (pad4 (i div 12)) (pad4 (j div 12))" by (rule str_lt_pad4)
    then show ?thesis
      by (simp add: eq str_lt_append_lt length_pad4)
  qed
qed

lemma loop_step_month_of_number:
  assumes "12000 \<le> i" "Suc i \<le> 12 * 9999 + 11"
  shows "loop_step (strftime_Ym (month_of_number i)) = Inr (month_of_number i, month_of_number (Suc i))"
proof -
  have v: "1000 \<le> i div 12" "i div 12 \<le> 9999" "i mod 12 + 1 \<le> 12"
    using assms year_of_month_number [of i] by simp_all
  then have p: "parse_yrmo (strftime_Ym (month_of_number i)) = Inr (month_of_number i)"
    by (simp add: month_of_number_def parse_yrmo_strftime_Ym)
  have n: "next_month (month_of_number i) = Inr (month_of_number (Suc i))"
  proof (cases "i mod 12 = 11")
    case True
    then have "Suc i mod 12 = 0" "Suc i div 12 = Suc (i div 12)"
      by (simp_all add: mod_Suc div_Suc)
    moreover have "i = 12 * (i div 12) + i mod 12" by simp
    then have "Suc (i div 12) \<le> 9999" using assms True by linarith
    ultimately show ?thesis using True
      by (simp add: next_month_def month_of_number_def datetime_def days_in_month_def Let_def)
  next
    case False
    then have "Suc i mod 12 = Suc (i mod 12)" "Suc i div 12 = i div 12"
      by (simp_all add: mod_Suc div_Suc)
    moreover have "i mod 12 < 12" by simp
    then have "i mod 12 < 11" using False by linarith
    ultimately show ?thesis using v \<open>i mod 12 < 11\<close>
      by (simp add: next_month_def month_of_number_def datetime_def days_in_month_def Let_def)
  qed
  show ?thesis by (simp add: loop_step_def p n)
qed

lemma strftime_fname_month_of_number:
  "12000 \<le> k \<Longrightarrow> strftime_fname (month_of_number k) = monthly_filename k"
  by (simp add: strftime_fname_def month_of_number_def monthly_filename_def fmt_Y_pad4
      year_of_month_number)

lemma str_lt_append_gt:
  "length a = length b \<Longrightarrow> str_lt a b \<Longrightarrow> \<not> str_lt (b @ c) (a @ d)"
  by (induction a b rule: list_induct2) (auto split: if_splits)

lemma str_lt_proper_prefix: "suffix \<noteq> [] \<Longrightarrow> str_lt a (a @ suffix)"
  by (induction a) (simp_all add: neq_Nil_conv, auto)

lemma length_strftime_Ym: "12000 \<le> k \<Longrightarrow> length (strftime_Ym (month_of_number k)) = 7"
  by (simp add: strftime_Ym_month_of_number pad4_def fmt_2_def)

lemma generate_loop_until:
  assumes "12000 \<le> i" "i \<le> j" "j \<le> 12 * 9999 + 11"
    and "\<And>k. i \<le> k \<Longrightarrow> k < j \<Longrightarrow> str_lt (strftime_Ym (month_of_number k)) en"
    and "\<not> str_lt (strftime_Ym (month_of_number j)) en"
  shows "generate_loop (strftime_Ym (month_of_number i)) en acc
         = Inr (acc @ map monthly_filename [i..<j])"
  using assms
proof (induction "j - i" arbitrary: i acc)
  case 0
  then have "i = j" by simp
  with "0.prems"(5) show ?case by (subst generate_loop.simps) simp
next
  case (Suc n)
  then have lt: "i < j" and nx: "Suc i \<le> 12 * 9999 + 11" by simp_all
  have s: "str_lt (strftime_Ym (month_of_number i)) en"
    using lt Suc.prems(4) by simp
  have st: "loop_step (strftime_Ym (month_of_number i)) = Inr (month_of_number i, month_of_number (Suc i))"
    using Suc.prems(1) nx by (rule loop_step_month_of_number)
  have ih: "generate_loop (strftime_Ym (month_of_number (Suc i))) en (acc @ [monthly_filename i])
            = Inr ((acc @ [monthly_filename i]) @ map monthly_filename [Suc i..<j])"
    using Suc.hyps(2) Suc.prems lt by (intro Suc.hyps(1)) simp_all
  have "[i..<j] = i # [Suc i..<j]" using lt by (simp add: upt_conv_Cons)
  then show ?case
    using Suc.prems(1)
    by (subst generate_loop.simps) (simp add: s st ih strftime_fname_month_of_number)
qed

lemma generate_loop_months:
  assumes "12000 \<le> i" "i \<le> j" "j \<le> 12 * 9999 + 11"
  shows "generate_loop (strftime_Ym (month_of_number i)) (strftime_Ym (month_of_number j)) acc
         = Inr (acc @ map monthly_filename [i..<j])"
  using assms
proof (rule generate_loop_until)
  fix k assume "i \<le> k" "k < j"
  then show "str_lt (strftime_Ym (month_of_number k)) (strftime_Ym (month_of_number j))"
    using assms(1,3) by (intro str_lt_strftime_Ym) simp_all
qed (rule str_lt_irrefl)

lemma digit_val_less: "is_digit a \<Longrightarrow> digit_val a < 10"
  by (auto simp: is_digit_def digit_val_def)

lemma digit_char_digit_val:
  assumes "is_digit a"
  shows "digit_char (digit_val a) = a"
proof -
  have "digit_val a mod 10 = digit_val a"
    using digit_val_less [OF assms] by simp
  moreover have "48 + digit_val a = of_char a"
    using assms by (simp add: is_digit_def digit_val_def)
  ultimately have "(of_char (digit_char (digit_val a)) :: nat) = of_char a"
    by (simp only: of_char_digit_char)
  then show ?thesis by simp
qed

lemma pad4_digits:
  assumes "a < 10" "b < 10" "c < 10" "d < 10"
  shows "pad4 (1000 * a + 100 * b + 10 * c + d) = [digit_char a, digit_char b, digit_char c, digit_char d]"
proof -
  let ?y = "1000 * a + 100 * b + 10 * c + d"
  have "?y div 1000 = a" using assms by (intro div_nat_eqI) simp_all
  moreover have "?y div 100 = 10 * a + b" using assms by (intro div_nat_eqI) simp_all
  moreover have "?y div 10 = 10 * (10 * a + b) + c" using assms by (intro div_nat_eqI) simp_all
  moreover have "?y = 10 * (10 * (10 * a + b) + c) + d" by simp
  ultimately show ?thesis using assms
    by (simp only: pad4_def digit_char_def mod_mult_self2_is_0 mod_mult_self4 mod_less) 
qed

lemma fmt_2_digits:
  assumes "p < 10" "q < 10"
  shows "fmt_2 (10 * p + q) = [digit_char p, digit_char q]"
proof -
  have "(10 * p + q) div 10 = p" using assms by (intro div_nat_eqI) simp_all
  then show ?thesis using assms by (simp add: fmt_2_def digit_char_def)
qed

lemma fields_YYYY_MM_Some:
  assumes "fields_YYYY_MM s = Some (y, m)"
  shows "s = pad4 y @ ''-'' @ fmt_2 m \<and> y \<le> 9999"
  using assms
proof (induction s rule: fields_YYYY_MM.induct)
  case (1 a b c d h p q)
  then have dg: "is_digit a" "is_digit b" "is_digit c" "is_digit d" "is_digit p" "is_digit q"
    and h: "h = CHR ''-''"
    and y: "y = 1000 * digit_val a + 100 * digit_val b + 10 * digit_val c + digit_val d"
    and m: "m = 10 * digit_val p + digit_val q"
    by (simp_all split: if_splits)
  note lt = dg [THEN digit_val_less]
  have "pad4 y = [a, b, c, d]"
    unfolding y using lt(1-4) dg by (simp add: pad4_digits digit_char_digit_val)
  moreover have "fmt_2 m = [p, q]"
    unfolding m using lt(5,6) dg by (simp add: fmt_2_digits digit_char_digit_val)
  moreover have "y \<le> 9999" unfolding y using lt by linarith
  ultimately show ?case using h by simp
qed simp_all

lemma is_YYYY_MM_pad4:
  assumes "is_YYYY_MM s"
  shows "s = pad4 (month_number s div 12) @ ''-'' @ fmt_2 (month_number s mod 12 + 1)
         \<and> 12 \<le> month_number s \<and> month_number s \<le> 12 * 9999 + 11"
proof -
  from assms obtain y m where f: "fields_YYYY_MM s = Some (y, m)" and v: "1 \<le> y" "1 \<le> m" "m \<le> 12"
    by (auto simp: is_YYYY_MM_def split: option.splits)
  from fields_YYYY_MM_Some [OF f] have s: "s = pad4 y @ ''-'' @ fmt_2 m" and y: "y \<le> 9999"
    by simp_all
  have n: "month_number s = 12 * y + (m - 1)" by (simp add: month_number_def f)
  define k where "k = m - 1"
  have k: "k < 12" "m = k + 1" using v by (simp_all add: k_def)
  have "(12 * y + k) div 12 = y" using k by (intro div_nat_eqI) simp_all
  moreover have "(12 * y + k) mod 12 = k" using k by simp
  ultimately have "month_number s div 12 = y" "month_number s mod 12 + 1 = m"
    using k by (simp_all add: n k_def [symmetric])
  moreover have "12 \<le> month_number s" "month_number s \<le> 12 * 9999 + 11"
    unfolding n using v y by linarith+
  ultimately show ?thesis using s by simp
qed

lemma is_YYYY_MM_strftime:
  assumes "is_YYYY_MM s" "12000 \<le> month_number s"
  shows "s = strftime_Ym (month_of_number (month_number s))
         \<and> month_number s \<le> 12 * 9999 + 11"
  using is_YYYY_MM_pad4 [OF assms(1)] strftime_Ym_month_of_number [OF assms(2)] by simp

lemma generate_loop_end_with_day:
  assumes e: "is_YYYY_MM end_month" and d: "day \<noteq> []"
    and y: "12000 \<le> month_number end_month"
    and m: "month_number end_month < 12 * 9999 + 11"
    and i: "12000 \<le> i" "i \<le> Suc (month_number end_month)"
  shows "generate_loop (strftime_Ym (month_of_number i)) (end_month @ day) acc
         = Inr (acc @ map monthly_filename [i ..< Suc (month_number end_month)])"
proof -
  let ?j = "month_number end_month"
  have em: "end_month = strftime_Ym (month_of_number ?j)"
    using is_YYYY_MM_strftime [OF e y] by simp
  have below: "str_lt (strftime_Ym (month_of_number k)) (end_month @ day)"
    if "12000 \<le> k" "k < Suc ?j" for k
  proof (cases "k = ?j")
    case True
    then show ?thesis using em str_lt_proper_prefix [OF d, of end_month] by simp
  next
    case False
    with that have "k < ?j" by simp
    then have "str_lt (strftime_Ym (month_of_number k)) (strftime_Ym (month_of_number ?j))"
      using m that(1) by (intro str_lt_strftime_Ym) simp_all
    then have "str_lt (strftime_Ym (month_of_number k) @ []) (strftime_Ym (month_of_number ?j) @ day)"
      using that(1) y by (intro str_lt_append_lt) (simp_all add: length_strftime_Ym)
    then show ?thesis using em by simp
  qed
  have "str_lt (strftime_Ym (month_of_number ?j)) (strftime_Ym (month_of_number (Suc ?j)))"
    using m y by (intro str_lt_strftime_Ym) simp_all
  then have "\<not> str_lt (strftime_Ym (month_of_number (Suc ?j)) @ []) (strftime_Ym (month_of_number ?j) @ day)"
    using y by (intro str_lt_append_gt) (simp_all add: length_strftime_Ym)
  then have above: "\<not> str_lt (strftime_Ym (month_of_number (Suc ?j))) (end_month @ day)"
    using em by simp
  show ?thesis
    using i m below above by (intro generate_loop_until) simp_all
qed

text \<open>
  C2 (as amended): for a date range whose two values are in the form YYYY-MM, with the
  start in the year 1000 or later and before the end, \<^verbatim>\<open>_generate_filenames\<close> returns,
  in order, the name \<^verbatim>\<open>YYYY/RC_YYYY-MM.bz2\<close> of every month from the start up to, and
  without, the end; after month 12 comes month 1 of the next year. The range
  \<^verbatim>\<open>("2007-11", "2008-02")\<close> gives the three names of 2007-11, 2007-12 and 2008-01.
\<close>

theorem generate_filenames_months:
  assumes "is_YYYY_MM start" "is_YYYY_MM end" "month_number start < month_number end"
    and "12000 \<le> month_number start"
  shows "generate_filenames (start, end)
         = Inr (map monthly_filename [month_number start ..< month_number end])"
proof -
  have e: "12000 \<le> month_number end" using assms(3,4) by simp
  note a = is_YYYY_MM_strftime [OF assms(1,4)] and b = is_YYYY_MM_strftime [OF assms(2) e]
  have "generate_loop (strftime_Ym (month_of_number (month_number start)))
          (strftime_Ym (month_of_number (month_number end))) []
        = Inr ([] @ map monthly_filename [month_number start ..< month_number end])"
    using a b assms(3,4) by (intro generate_loop_months) simp_all
  then show ?thesis using a b by (simp add: generate_filenames_def)
qed

theorem generate_filenames_months_witness:
  "is_YYYY_MM ''2007-11'' \<and> is_YYYY_MM ''2008-02''
   \<and> month_number ''2007-11'' < month_number ''2008-02''
   \<and> 12000 \<le> month_number ''2007-11''
   \<and> generate_filenames (''2007-11'', ''2008-02'')
       = Inr [''2007/RC_2007-11.bz2'', ''2007/RC_2007-12.bz2'', ''2008/RC_2008-01.bz2'']"
proof -
  have h: "is_YYYY_MM ''2007-11''" "is_YYYY_MM ''2008-02''"
    by (simp_all add: is_YYYY_MM_def is_digit_def digit_val_def)
  have n: "month_number ''2007-11'' = 24094" "month_number ''2008-02'' = 24097"
    by (simp_all add: month_number_def is_digit_def digit_val_def)
  have u: "[24094..<24097] = [24094, 24095, 24096 :: nat]"
    by (simp add: upt_rec)
  have f: "map monthly_filename [24094, 24095, 24096]
           = [''2007/RC_2007-11.bz2'', ''2007/RC_2007-12.bz2'', ''2008/RC_2008-01.bz2'']"
    by (simp add: monthly_filename_def pad4_def fmt_2_def digit_char_def)
  from generate_filenames_months [OF h] n u f h show ?thesis by simp
qed

text \<open>
  C2 as stated fails below the year 1000, where \<^verbatim>\<open>%Y\<close> prints fewer than four digits:
  from \<^verbatim>\<open>("0999-11", "1000-02")\<close> the one name returned is \<^verbatim>\<open>999/RC_999-11.bz2\<close>,
  since the next \<^verbatim>\<open>yrmo\<close>, \<^verbatim>\<open>999-12\<close>, is not below \<^verbatim>\<open>1000-02\<close> as a string; the
  claim has the three names of 0999-11, 0999-12 and 1000-01.
\<close>

theorem generate_filenames_below_1000_counterexample:
  "is_YYYY_MM ''0999-11'' \<and> is_YYYY_MM ''1000-02''
   \<and> month_number ''0999-11'' < month_number ''1000-02''
   \<and> generate_filenames (''0999-11'', ''1000-02'') = Inr [''999/RC_999-11.bz2'']
   \<and> map monthly_filename [month_number ''0999-11'' ..< month_number ''1000-02'']
       = [''0999/RC_0999-11.bz2'', ''0999/RC_0999-12.bz2'', ''1000/RC_1000-01.bz2'']
   \<and> generate_filenames (''0999-11'', ''1000-02'')
       \<noteq> Inr (map monthly_filename [month_number ''0999-11'' ..< month_number ''1000-02''])"
proof -
  have h: "is_YYYY_MM ''0999-11''" "is_YYYY_MM ''1000-02''"
    by (simp_all add: is_YYYY_MM_def is_digit_def digit_val_def)
  have n: "month_number ''0999-11'' = 11998" "month_number ''1000-02'' = 12001"
    by (simp_all add: month_number_def is_digit_def digit_val_def)
  have u: "[11998..<12001] = [11998, 11999, 12000 :: nat]"
    by (simp add: upt_rec)
  have f: "map monthly_filename [11998, 11999, 12000]
           = [''0999/RC_0999-11.bz2'', ''0999/RC_0999-12.bz2'', ''1000/RC_1000-01.bz2'']"
    by (simp add: monthly_filename_def pad4_def fmt_2_def digit_char_def)
  have st: "loop_step ''0999-11'' = Inr ((999, 11, Suc 0), (999, 12, Suc 0))"
    by (simp add: loop_step_def parse_yrmo_def next_month_def strptime_Ym_def strptime_Ymd_def
        re_m_def re_d_def is_digit_def digit_val_def in_range_def datetime_def
        days_in_month_def Let_def)
  have nx: "strftime_Ym (999, 12, Suc 0) = ''999-12''"
    "strftime_fname (999, 11, Suc 0) = ''999/RC_999-11.bz2''"
    by (simp_all add: strftime_Ym_def strftime_fname_def fmt_Y_def fmt_2_def digit_char_def)
  have g: "generate_filenames (''0999-11'', ''1000-02'') = Inr [''999/RC_999-11.bz2'']"
    by (simp add: generate_filenames_def generate_loop.simps [of "''0999-11''"]
        generate_loop.simps [of "''999-12''"] st nx)
  from h n u f g show ?thesis by simp
qed

text \<open>
  An end given with a day is not cut down to its month: the loop compares the strings,
  and a month in the form YYYY-MM is a proper prefix of, so smaller than, every date of
  that month. The month of the end is then part of the result.
\<close>

lemma generate_filenames_end_with_day:
  assumes "is_YYYY_MM start" "is_YYYY_MM end_month" "month_number start \<le> month_number end_month"
    and "day \<noteq> []" "month_number end_month < 12 * 9999 + 11"
    and "12000 \<le> month_number start"
  shows "generate_filenames (start, end_month @ day)
         = Inr (map monthly_filename [month_number start ..< Suc (month_number end_month)])"
proof -
  note a = is_YYYY_MM_strftime [OF assms(1,6)]
  have "generate_loop (strftime_Ym (month_of_number (month_number start))) (end_month @ day) []
        = Inr ([] @ map monthly_filename [month_number start ..< Suc (month_number end_month)])"
    using a assms by (intro generate_loop_end_with_day) simp_all
  then show ?thesis using a by (simp add: generate_filenames_def)
qed

text \<open>
  C3 (the code against the claim): with the end \<^verbatim>\<open>"2015-01-15"\<close> the month 2015-01 is
  in the result of \<^verbatim>\<open>_generate_filenames\<close>, where the claim has it left out.
\<close>

theorem generate_filenames_end_day_includes_month:
  "generate_filenames (''2014-12'', ''2015-01-15'')
   = Inr [''2014/RC_2014-12.bz2'', ''2015/RC_2015-01.bz2'']"
  by (simp add: generate_filenames_def generate_loop.simps loop_step_def parse_yrmo_def
      next_month_def strptime_Ym_def strptime_Ymd_def re_m_def re_d_def is_digit_def
      digit_val_def in_range_def datetime_def days_in_month_def strftime_Ym_def
      strftime_fname_def fmt_Y_def pad4_def fmt_2_def digit_char_def Let_def)

text \<open>
  The same on the default range of \<^verbatim>\<open>download\<close>, \<^verbatim>\<open>(MIN_DATE, MAX_DATE)\<close>: the last
  name asked for is that of June 2015, a month after the archive's last.
\<close>

lemma generate_filenames_default_range:
  "generate_filenames (MIN_DATE, MAX_DATE) = Inr (map monthly_filename [24093 ..< 24186])
   \<and> monthly_filename 24185 = ''2015/RC_2015-06.bz2''"
proof -
  have st: "loop_step ''2007-10-01'' = Inr ((2007, 10, 1), month_of_number 24094)"
    by (simp add: loop_step_def parse_yrmo_def next_month_def strptime_Ym_def strptime_Ymd_def
        re_m_def re_d_def is_digit_def digit_val_def in_range_def datetime_def
        days_in_month_def month_of_number_def Let_def)
  have lt: "str_lt ''2007-10-01'' ''2015-06-01''" by simp
  have e: "is_YYYY_MM ''2015-06''" "month_number ''2015-06'' = 24185"
    by (simp_all add: is_YYYY_MM_def month_number_def is_digit_def digit_val_def)
  have "generate_loop (strftime_Ym (month_of_number 24094)) (''2015-06'' @ ''-01'') [monthly_filename 24093]
        = Inr ([monthly_filename 24093] @ map monthly_filename [24094 ..< Suc (month_number ''2015-06'')])"
    using e by (intro generate_loop_end_with_day) simp_all
  moreover have "strftime_fname (2007, 10, 1) = monthly_filename 24093"
    by (simp add: strftime_fname_def monthly_filename_def fmt_Y_def)
  moreover have "[24093 ..< 24186] = 24093 # [24094 ..< 24186]"
    by (simp add: upt_conv_Cons)
  ultimately have "generate_loop ''2007-10-01'' ''2015-06-01'' [] = Inr (map monthly_filename [24093 ..< 24186])"
    using st lt e by (subst generate_loop.simps) simp
  moreover have "monthly_filename 24185 = ''2015/RC_2015-06.bz2''"
    by (simp add: monthly_filename_def pad4_def fmt_2_def digit_char_def)
  ultimately show ?thesis
    by (simp add: generate_filenames_def MIN_DATE_def MAX_DATE_def)
qed

section \<open>The limit on the number of items\<close>

text \<open>
  The reading of "all records passing the filters": the items of the lines in order,
  up to the first exception, with no count kept.
\<close>

fun run_all :: "(jrecord \<Rightarrow> jrecord \<times> outcome) \<Rightarrow> jrecord list \<Rightarrow> item list \<times> error option" where
  "run_all body [] = ([], None)"
| "run_all body (line # rest) =
     (case snd (body line) of
        Skip \<Rightarrow> run_all body rest
      | Raise e \<Rightarrow> ([], Some e)
      | Yield it \<Rightarrow> (case run_all body rest of (items, err) \<Rightarrow> (it # items, err)))"

lemma lines_loop_unbounded:
  "limit \<le> n \<Longrightarrow>
   lines_loop body limit n ls
   = (fst (run_all body ls), n + int (length (fst (run_all body ls))), snd (run_all body ls))"
proof (induction ls arbitrary: n)
  case Nil
  show ?case by simp
next
  case (Cons l ls)
  show ?case
  proof (cases "snd (body l)")
    case Skip
    with Cons show ?thesis by simp
  next
    case (Yield it)
    have "limit \<le> n + 1" "n + 1 \<noteq> limit" using Cons.prems by simp_all
    with Cons.IH [of "n + 1"] Yield show ?thesis
      by (simp add: case_prod_beta)
  next
    case (Raise e)
    then show ?thesis by simp
  qed
qed

lemma run_all_append:
  "run_all body (a @ b)
   = (case run_all body a of
        (items, Some e) \<Rightarrow> (items, Some e)
      | (items, None) \<Rightarrow> (case run_all body b of (items', err) \<Rightarrow> (items @ items', err)))"
  by (induction a) (auto split: outcome.splits prod.splits option.splits)

lemma files_loop_unbounded:
  "limit < n \<Longrightarrow> files_loop rd body limit n fps = run_all body (concat (map rd fps))"
proof (induction fps arbitrary: n)
  case Nil
  show ?case by simp
next
  case (Cons fp fps)
  obtain items err where r: "run_all body (rd fp) = (items, err)"
    by (cases "run_all body (rd fp)")
  have l: "lines_loop body limit n (rd fp) = (items, n + int (length items), err)"
    using Cons.prems lines_loop_unbounded [of limit n body "rd fp"] r by simp
  have lt: "limit < n + int (length items)" using Cons.prems by simp
  show ?case
  proof (cases err)
    case (Some e)
    with l r show ?thesis by (simp add: run_all_append)
  next
    case None
    obtain items' err' where r': "run_all body (concat (map rd fps)) = (items', err')"
      by (cases "run_all body (concat (map rd fps))")
    with Cons.IH [OF lt] have "files_loop rd body limit (n + int (length items)) fps = (items', err')"
      by simp
    with None l r r' lt show ?thesis by (simp add: run_all_append)
  qed
qed

lemma lines_loop_bounded:
  assumes "lines_loop body limit n ls = (items, n', err)" "n < limit"
  shows "take (nat (limit - n)) (fst (run_all body ls)) = items
         \<and> n' = n + int (length items) \<and> n' \<le> limit
         \<and> (n' = limit \<longrightarrow> err = None)
         \<and> (n' \<noteq> limit \<longrightarrow> run_all body ls = (items, err))"
  using assms
proof (induction ls arbitrary: n items n' err)
  case Nil
  then have "items = []" "n' = n" "err = None" by simp_all
  with Nil.prems(2) show ?case by simp
next
  case (Cons l ls)
  show ?case
  proof (cases "snd (body l)")
    case Skip
    with Cons.prems have "lines_loop body limit n ls = (items, n', err)" by simp
    from Cons.IH [OF this Cons.prems(2)] Skip show ?thesis by simp
  next
    case (Raise e)
    with Cons.prems have "items = []" "n' = n" "err = Some e" by simp_all
    with Cons.prems(2) Raise show ?thesis by simp
  next
    case (Yield it)
    show ?thesis
    proof (cases "n + 1 = limit")
      case True
      then have k: "nat (limit - n) = Suc 0" by simp
      from True Yield Cons.prems have eq: "items = [it]" "n' = n + 1" "err = None"
        by simp_all
      show ?thesis unfolding eq k using True Yield by (simp add: case_prod_beta)
    next
      case False
      with Cons.prems have lt: "n + 1 < limit" by simp
      obtain items2 n2 err2 where l2: "lines_loop body limit (n + 1) ls = (items2, n2, err2)"
        by (cases "lines_loop body limit (n + 1) ls")
      with False Yield Cons.prems have eq: "items = it # items2" "n' = n2" "err = err2"
        by simp_all
      obtain k where k: "nat (limit - n) = Suc k" "nat (limit - (n + 1)) = k"
        using lt by (cases "nat (limit - n)") simp_all
      from Cons.IH [OF l2 lt]
      have ih: "take k (fst (run_all body ls)) = items2"
        "n2 = n + 1 + int (length items2)" "n2 \<le> limit"
        "n2 = limit \<longrightarrow> err2 = None"
        "n2 \<noteq> limit \<longrightarrow> run_all body ls = (items2, err2)"
        unfolding k by simp_all
      have 1: "take (nat (limit - n)) (fst (run_all body (l # ls))) = items"
        unfolding eq k using ih(1) Yield by (simp add: case_prod_beta)
      have 2: "n' = n + int (length items)" unfolding eq using ih(2) by simp
      have 3: "n' \<noteq> limit \<longrightarrow> run_all body (l # ls) = (items, err)"
        unfolding eq using ih(5) Yield by simp
      from 1 2 3 ih(3,4) show ?thesis unfolding eq by blast
    qed
  qed
qed

lemma files_loop_bounded:
  "n < limit \<Longrightarrow>
   fst (files_loop rd body limit n fps)
   = take (nat (limit - n)) (fst (run_all body (concat (map rd fps))))"
proof (induction fps arbitrary: n)
  case Nil
  show ?case by simp
next
  case (Cons fp fps)
  obtain items n' err where l: "lines_loop body limit n (rd fp) = (items, n', err)"
    by (cases "lines_loop body limit n (rd fp)")
  from lines_loop_bounded [OF l Cons.prems]
  have items: "take (nat (limit - n)) (fst (run_all body (rd fp))) = items"
    and n': "n' = n + int (length items)" "n' \<le> limit"
    and fin: "n' = limit \<Longrightarrow> err = None"
    and nofin: "n' \<noteq> limit \<Longrightarrow> run_all body (rd fp) = (items, err)"
    by simp_all
  obtain ri re where r: "run_all body (rd fp) = (ri, re)"
    by (cases "run_all body (rd fp)")
  obtain ri' re' where r': "run_all body (concat (map rd fps)) = (ri', re')"
    by (cases "run_all body (concat (map rd fps))")
  show ?case
  proof (cases "n' = limit")
    case True
    then have len: "length items = nat (limit - n)" using n' by simp
    have ti: "take (nat (limit - n)) ri = items"
      using items r by simp
    then have "nat (limit - n) \<le> length ri"
      using len by (metis length_take min.cobounded1)
    then have "take (nat (limit - n)) (ri @ ri') = items"
      using ti by simp
    moreover note ti
    ultimately have "take (nat (limit - n)) (fst (run_all body (rd fp @ concat (map rd fps)))) = items"
      using r r' by (cases re) (simp_all add: run_all_append)
    with True fin l show ?thesis by simp
  next
    case False
    with n' have lt: "n' < limit" by simp
    from nofin [OF False] r have eq: "ri = items" "re = err" by simp_all
    show ?thesis
    proof (cases err)
      case (Some e)
      have "length items < nat (limit - n)" using n' lt by simp
      with Some l r eq show ?thesis by (simp add: run_all_append)
    next
      case None
      have k: "nat (limit - n) = length items + nat (limit - n')" using n' lt by simp
      obtain fi fe where f: "files_loop rd body limit n' fps = (fi, fe)"
        by (cases "files_loop rd body limit n' fps")
      from Cons.IH [OF lt] f r' have "fi = take (nat (limit - n')) ri'" by simp
      with None l r r' eq f False k show ?thesis by (simp add: run_all_append)
    qed
  qed
qed

lemma iterate_at_most_limit:
  assumes "1 \<le> limit"
  shows "int (length (fst (iterate data_dir dk text_only subreddit date_range score_range
                             min_len limit))) \<le> limit"
proof -
  have "int (length (fst (files_loop rd body limit 0 fps))) \<le> limit" for rd body fps
    using assms files_loop_bounded [of 0 limit rd body fps] by simp
  then show ?thesis
    using assms by (simp add: iterate_def split: sum.splits prod.splits)
qed

lemma iterate_unbounded:
  assumes "limit < 0"
  shows "iterate data_dir dk text_only subreddit date_range score_range min_len limit
         = iterate data_dir dk text_only subreddit date_range score_range min_len (- 1)"
  using assms by (simp add: iterate_def files_loop_unbounded split: sum.splits prod.splits)

text \<open>Evaluation of the model on concrete lines.\<close>

lemmas clean_eval = clean_content_def sub_links.simps match_link_def strip_prefix_def
  replace_str.simps
  normalize_whitespace_def strip_def is_space_def Let_def

lemmas timestamp_eval = convert_timestamp_def get_or_empty_def int_of_str_def strip_int_def
  is_int_space_def int_of_digits_def MAX_STR_DIGITS_def
  is_digit_def digit_val_def utcfromtimestamp_def civil_from_days_def
  year_of_def month_of_def day_of_def mp_of_def doy_of_def yoe_of_def doe_of_def era_of_def
  strftime_iso_def fmt_Y_def pad4_def fmt_2_def digit_char_def

lemmas line_eval = process_line_def subreddit_skips_def score_skips_def date_skips_def
  clean_body_def str_le_def

text \<open>
  C1 (the code against the claim): with \<open>limit = 0\<close> the count is 1 after the first
  \<^verbatim>\<open>yield\<close> and never equals the limit, so every passing line is yielded, where the
  claim has none yielded. For a limit of 1 or more at most \<open>limit\<close> items are yielded
  (\<open>iterate_at_most_limit\<close>, \<open>files_loop_bounded\<close>) and for a negative limit all are
  (\<open>iterate_unbounded\<close>, \<open>files_loop_unbounded\<close>).
\<close>

theorem limit_zero_yields_all:
  "texts ''data''
     \<lparr>found = Some [''data/2015/RC_2015-01.bz2''],
      read_json_lines = (\<lambda>filepath. [[''body'' \<mapsto> JStr ''a''], [''body'' \<mapsto> JStr ''b'']])\<rparr>
     SubNone None None 0 0
   = ([Text ''a'', Text ''b''], None)"
  by (simp add: texts_def iterate_def select_filepaths_def filenames_def sorted_str_def
      line_eval timestamp_eval clean_eval)

section \<open>No file to read\<close>



text \<open>
  Before the files are looked at, \<^verbatim>\<open>_iterate\<close> parses the two ranges: a score range
  that is true and has not two items, a date range that is true and has not two items,
  and a date range \<^verbatim>\<open>_generate_filenames\<close> cannot read, each raise there.
\<close>

lemma parse_score_range_malformed:
  assumes "xs \<noteq> []" "length xs \<noteq> 2"
  shows "parse_score_range (Some xs) = Inl ValueError"
proof -
  from assms(1) obtain a as where xs: "xs = a # as" by (cases xs) auto
  show ?thesis
  proof (cases as)
    case Nil
    with xs show ?thesis by simp
  next
    case (Cons b bs)
    with xs assms(2) obtain c cs where "bs = c # cs" by (cases bs) auto
    with xs Cons show ?thesis by simp
  qed
qed

lemma iterate_score_range_malformed:
  assumes "truthy_range score_range" "length (the score_range) \<noteq> 2"
  shows "iterate data_dir dk text_only subreddit date_range score_range min_len limit
         = ([], Some ValueError)"
proof -
  from assms(1) obtain xs where s: "score_range = Some xs" "xs \<noteq> []"
    by (cases score_range) auto
  with assms(2) have "parse_score_range score_range = Inl ValueError"
    by (simp add: parse_score_range_malformed)
  with assms(1) show ?thesis by (simp add: iterate_def)
qed








section \<open>The order of the filters\<close>

lemma clean_body_created [simp]:
  "clean_body (line(''created_utc'' \<mapsto> v)) = clean_body line"
  by (simp add: clean_body_def)

lemma get_retrieved_on [simp]:
  "get_or_empty (line(''created_utc'' \<mapsto> v, ''body'' \<mapsto> w)) ''retrieved_on''
   = get_or_empty line ''retrieved_on''"
  by (simp add: get_or_empty_def)

text \<open>
  C5: the loop body tests the subreddit on the raw value, then the score range on the
  raw score, then converts \<^verbatim>\<open>created_utc\<close> and tests the date range, then cleans the
  body, then tests the minimum length on the cleaned body, and stops at the first test
  that fails. A line rejected by the subreddit or the score filter is skipped unchanged
  (no timestamp is converted, no body cleaned); a line rejected by the date filter has
  only \<^verbatim>\<open>created_utc\<close> replaced, its body as it was; a line rejected by the minimum
  length has both replaced. A line that passes is yielded, as its cleaned text or, after
  \<^verbatim>\<open>retrieved_on\<close> is converted, as the whole line.
\<close>

theorem process_line_order:
  "(subreddit_skips subreddit line = Inr True \<longrightarrow>
      process_line subreddit score_range date_range min_len text_only line = (line, Skip))
   \<and> (subreddit_skips subreddit line = Inr False \<and> score_skips score_range line = Inr True \<longrightarrow>
      process_line subreddit score_range date_range min_len text_only line = (line, Skip))
   \<and> (subreddit_skips subreddit line = Inr False \<and> score_skips score_range line = Inr False
      \<and> convert_timestamp (get_or_empty line ''created_utc'') = Inr created
      \<and> date_skips date_range created \<longrightarrow>
      process_line subreddit score_range date_range min_len text_only line
        = (line(''created_utc'' \<mapsto> JStr created), Skip)
      \<and> (line(''created_utc'' \<mapsto> JStr created)) ''body'' = line ''body'')
   \<and> (subreddit_skips subreddit line = Inr False \<and> score_skips score_range line = Inr False
      \<and> convert_timestamp (get_or_empty line ''created_utc'') = Inr created
      \<and> \<not> date_skips date_range created \<and> clean_body line = Inr body
      \<and> min_len \<noteq> 0 \<and> int (length body) < min_len \<longrightarrow>
      process_line subreddit score_range date_range min_len text_only line
        = (line(''created_utc'' \<mapsto> JStr created, ''body'' \<mapsto> JStr body), Skip))
   \<and> (subreddit_skips subreddit line = Inr False \<and> score_skips score_range line = Inr False
      \<and> convert_timestamp (get_or_empty line ''created_utc'') = Inr created
      \<and> \<not> date_skips date_range created \<and> clean_body line = Inr body
      \<and> \<not> (min_len \<noteq> 0 \<and> int (length body) < min_len) \<longrightarrow>
      process_line subreddit score_range date_range min_len True line
        = (line(''created_utc'' \<mapsto> JStr created, ''body'' \<mapsto> JStr body), Yield (Text body))
      \<and> (convert_timestamp (get_or_empty line ''retrieved_on'') = Inr retrieved \<longrightarrow>
         process_line subreddit score_range date_range min_len False line
         = (line(''created_utc'' \<mapsto> JStr created, ''body'' \<mapsto> JStr body,
                 ''retrieved_on'' \<mapsto> JStr retrieved),
            Yield (Record (line(''created_utc'' \<mapsto> JStr created, ''body'' \<mapsto> JStr body,
                 ''retrieved_on'' \<mapsto> JStr retrieved)))))
      \<and> (\<forall>e. convert_timestamp (get_or_empty line ''retrieved_on'') = Inl e \<longrightarrow>
         process_line subreddit score_range date_range min_len False line
         = (line(''created_utc'' \<mapsto> JStr created, ''body'' \<mapsto> JStr body), Raise e)))
   \<and> (\<forall>e. subreddit_skips subreddit line = Inl e \<longrightarrow>
      process_line subreddit score_range date_range min_len text_only line = (line, Raise e))"
  by (simp add: process_line_def Let_def)



theorem process_line_order_witness:
  "process_line (Some {''politics''}) (Some (0, 10)) (Some (''2015'', ''2016'')) 1 False
     [''subreddit'' \<mapsto> JStr ''news'', ''score'' \<mapsto> JInt 5,
      ''created_utc'' \<mapsto> JInt (10 ^ 19), ''body'' \<mapsto> JStr ''*hi*'']
   = ([''subreddit'' \<mapsto> JStr ''news'', ''score'' \<mapsto> JInt 5,
       ''created_utc'' \<mapsto> JInt (10 ^ 19), ''body'' \<mapsto> JStr ''*hi*''], Skip)
   \<and> process_line (Some {''news''}) (Some (0, 5)) (Some (''2015'', ''2016'')) 1 False
     [''subreddit'' \<mapsto> JStr ''news'', ''score'' \<mapsto> JInt 5,
      ''created_utc'' \<mapsto> JInt (10 ^ 19), ''body'' \<mapsto> JStr ''*hi*'']
   = ([''subreddit'' \<mapsto> JStr ''news'', ''score'' \<mapsto> JInt 5,
       ''created_utc'' \<mapsto> JInt (10 ^ 19), ''body'' \<mapsto> JStr ''*hi*''], Skip)
   \<and> process_line (Some {''news''}) (Some (0, 10)) (Some (''2016'', ''2017'')) 1 False
     [''subreddit'' \<mapsto> JStr ''news'', ''score'' \<mapsto> JInt 5,
      ''created_utc'' \<mapsto> JInt 1420070400, ''body'' \<mapsto> JStr ''*hi*'']
   = ([''subreddit'' \<mapsto> JStr ''news'', ''score'' \<mapsto> JInt 5,
       ''created_utc'' \<mapsto> JInt 1420070400, ''body'' \<mapsto> JStr ''*hi*'',
       ''created_utc'' \<mapsto> JStr ''2015-01-01T00:00:00''], Skip)
   \<and> process_line (Some {''news''}) (Some (0, 10)) (Some (''2015'', ''2016'')) 3 False
     [''subreddit'' \<mapsto> JStr ''news'', ''score'' \<mapsto> JInt 5,
      ''created_utc'' \<mapsto> JInt 1420070400, ''body'' \<mapsto> JStr ''*hi*'']
   = ([''subreddit'' \<mapsto> JStr ''news'', ''score'' \<mapsto> JInt 5,
       ''created_utc'' \<mapsto> JInt 1420070400, ''body'' \<mapsto> JStr ''*hi*'',
       ''created_utc'' \<mapsto> JStr ''2015-01-01T00:00:00'', ''body'' \<mapsto> JStr ''hi''], Skip)
   \<and> process_line (Some {''news''}) (Some (0, 10)) (Some (''2015'', ''2016'')) 2 True
     [''subreddit'' \<mapsto> JStr ''news'', ''score'' \<mapsto> JInt 5,
      ''created_utc'' \<mapsto> JInt 1420070400, ''body'' \<mapsto> JStr ''*hi*'']
   = ([''subreddit'' \<mapsto> JStr ''news'', ''score'' \<mapsto> JInt 5,
       ''created_utc'' \<mapsto> JInt 1420070400, ''body'' \<mapsto> JStr ''*hi*'',
       ''created_utc'' \<mapsto> JStr ''2015-01-01T00:00:00'', ''body'' \<mapsto> JStr ''hi''],
      Yield (Text ''hi''))"
proof -
  let ?bad = "[''subreddit'' \<mapsto> JStr ''news'', ''score'' \<mapsto> JInt 5,
      ''created_utc'' \<mapsto> JInt (10 ^ 19), ''body'' \<mapsto> JStr ''*hi*'']"
  let ?l = "[''subreddit'' \<mapsto> JStr ''news'', ''score'' \<mapsto> JInt 5,
      ''created_utc'' \<mapsto> JInt 1420070400, ''body'' \<mapsto> JStr ''*hi*'']"
  note c1 = process_line_order [THEN conjunct1, rule_format]
  note c2 = process_line_order [THEN conjunct2, THEN conjunct1, rule_format]
  note c3 = process_line_order [THEN conjunct2, THEN conjunct2, THEN conjunct1, rule_format,
      THEN conjunct1]
  note c4 = process_line_order [THEN conjunct2, THEN conjunct2, THEN conjunct2, THEN conjunct1,
      rule_format]
  note c5 = process_line_order [THEN conjunct2, THEN conjunct2, THEN conjunct2, THEN conjunct2,
      THEN conjunct1, rule_format, THEN conjunct1]
  have sub: "subreddit_skips (Some {''politics''}) ?bad = Inr True"
    "subreddit_skips (Some {''news''}) ?bad = Inr False"
    "subreddit_skips (Some {''news''}) ?l = Inr False"
    by (simp_all add: subreddit_skips_def)
  have sc: "score_skips (Some (0, 5)) ?bad = Inr True" "score_skips (Some (0, 10)) ?l = Inr False"
    by (simp_all add: score_skips_def)
  have ts: "convert_timestamp (get_or_empty ?l ''created_utc'') = Inr ''2015-01-01T00:00:00''"
    by (simp add: timestamp_eval)
  have d: "date_skips (Some (''2016'', ''2017'')) ''2015-01-01T00:00:00''"
    "\<not> date_skips (Some (''2015'', ''2016'')) ''2015-01-01T00:00:00''"
    by (simp_all add: date_skips_def str_le_def)
  have b: "clean_body ?l = Inr ''hi''"
    by (simp add: clean_body_def clean_eval)
  have 1: "process_line (Some {''politics''}) (Some (0, 10)) (Some (''2015'', ''2016'')) 1 False ?bad
           = (?bad, Skip)"
    by (rule c1) (rule sub(1))
  have 2: "process_line (Some {''news''}) (Some (0, 5)) (Some (''2015'', ''2016'')) 1 False ?bad
           = (?bad, Skip)"
    by (rule c2) (intro conjI sub(2) sc(1))
  have 3: "process_line (Some {''news''}) (Some (0, 10)) (Some (''2016'', ''2017'')) 1 False ?l
           = (?l(''created_utc'' \<mapsto> JStr ''2015-01-01T00:00:00''), Skip)"
    by (rule c3) (intro conjI sub(3) sc(2) ts d(1))
  have m: "(3::int) \<noteq> 0" "int (length ''hi'') < 3" "\<not> ((2::int) \<noteq> 0 \<and> int (length ''hi'') < 2)"
    by simp_all
  have 4: "process_line (Some {''news''}) (Some (0, 10)) (Some (''2015'', ''2016'')) 3 False ?l
           = (?l(''created_utc'' \<mapsto> JStr ''2015-01-01T00:00:00'', ''body'' \<mapsto> JStr ''hi''), Skip)"
    by (rule c4) (intro conjI sub(3) sc(2) ts d(2) b m(1,2))
  have 5: "process_line (Some {''news''}) (Some (0, 10)) (Some (''2015'', ''2016'')) 2 True ?l
           = (?l(''created_utc'' \<mapsto> JStr ''2015-01-01T00:00:00'', ''body'' \<mapsto> JStr ''hi''),
              Yield (Text ''hi''))"
    by (rule c5) (intro conjI sub(3) sc(2) ts d(2) b m(3))
  from 1 2 3 4 5 show ?thesis by (intro conjI)
qed

section \<open>Timestamps that are no integer\<close>



lemma set_strip: "set (strip s) \<subseteq> set s"
  unfolding strip_def by (auto dest!: set_dropWhileD)










lemma str_lt_Nil [simp]: "\<not> str_lt s []"
  by (cases s) simp_all




section \<open>What cleaning does\<close>

lemma match_link_not_bracket: "CHR ''['' \<noteq> c \<Longrightarrow> match_link (c # cs) = None"
  by (auto simp: match_link_def strip_prefix_def)

lemma sub_links_no_bracket: "CHR ''['' \<notin> set s \<Longrightarrow> sub_links s = s"
  by (induction s) (simp_all add: sub_links.simps match_link_not_bracket)

lemma match_link_http:
  assumes "label \<noteq> []" "CHR '']'' \<notin> set label" "url \<noteq> []" "CHR '')'' \<notin> set url"
  shows "match_link (''['' @ label @ ''](http://'' @ url @ '')'' @ rest) = Some (label, rest)"
    and "match_link (''['' @ label @ ''](https://'' @ url @ '')'' @ rest) = Some (label, rest)"
proof -
  have t: "takeWhile (\<lambda>c. c \<noteq> CHR '']'') (label @ CHR '']'' # r) = label" for r
    using assms(2) by (subst takeWhile_tail) auto
  have d: "dropWhile (\<lambda>c. c \<noteq> CHR '']'') (label @ CHR '']'' # r) = CHR '']'' # r" for r
    using assms(2) by (subst dropWhile_append2) auto
  have tu: "takeWhile (\<lambda>c. c \<noteq> CHR '')'') (url @ CHR '')'' # r) = url" for r
    using assms(4) by (subst takeWhile_tail) auto
  have du: "dropWhile (\<lambda>c. c \<noteq> CHR '')'') (url @ CHR '')'' # r) = CHR '')'' # r" for r
    using assms(4) by (subst dropWhile_append2) auto
  show "match_link (''['' @ label @ ''](http://'' @ url @ '')'' @ rest) = Some (label, rest)"
    using assms(1,3) by (simp add: match_link_def strip_prefix_def t d tu du)
  show "match_link (''['' @ label @ ''](https://'' @ url @ '')'' @ rest) = Some (label, rest)"
    using assms(1,3) by (simp add: match_link_def strip_prefix_def t d tu du)
qed

lemma sub_links_link:
  assumes "label \<noteq> []" "CHR '']'' \<notin> set label" "url \<noteq> []" "CHR '')'' \<notin> set url"
  shows "sub_links (''['' @ label @ ''](http://'' @ url @ '')'' @ rest) = label @ sub_links rest"
    and "sub_links (''['' @ label @ ''](https://'' @ url @ '')'' @ rest) = label @ sub_links rest"
  using match_link_http [OF assms, of rest] by (simp_all add: sub_links.simps)

lemma replace_str_Nil: "old \<noteq> [] \<Longrightarrow> replace_str old new [] = []"
  by (simp add: replace_str.simps)

lemma replace_str_Cons_other:
  "o1 \<noteq> c \<Longrightarrow> replace_str (o1 # os) new (c # cs) = c # replace_str (o1 # os) new cs"
  by (subst replace_str.simps) auto

lemma replace_str_absent:
  "o1 \<notin> set s \<Longrightarrow> replace_str (o1 # os) new s = s"
  by (induction s) (simp_all add: replace_str_Nil replace_str_Cons_other)

lemma replace_str_at:
  "replace_str (o1 # os) new ((o1 # os) @ s) = new @ replace_str (o1 # os) new s"
  by (subst replace_str.simps) simp

lemma replace_str_first:
  "o1 \<notin> set a \<Longrightarrow>
   replace_str (o1 # os) new (a @ (o1 # os) @ b) = a @ new @ replace_str (o1 # os) new b"
  by (induction a) (simp_all add: replace_str_Cons_other replace_str_at [simplified])

lemma replace_str_delete:
  "replace_str [m] [] s = filter (\<lambda>c. c \<noteq> m) s"
proof (induction s)
  case Nil
  show ?case by (simp add: replace_str_Nil)
next
  case (Cons c cs)
  show ?case
  proof (cases "c = m")
    case True
    with Cons replace_str_at [of m "[]" "[]" cs] show ?thesis by simp
  next
    case False
    then have "m \<noteq> c" by simp
    with Cons False show ?thesis by (simp add: replace_str_Cons_other)
  qed
qed

lemma clean_content_filter:
  "clean_content c
   = normalize_whitespace
       (filter (\<lambda>x. x \<noteq> CHR 0x60 \<and> x \<noteq> CHR ''*'' \<and> x \<noteq> CHR ''~'')
          (replace_str ''&lt;'' ''<'' (replace_str ''&gt;'' ''>'' (sub_links c))))"
  by (simp add: clean_content_def replace_str_delete conj_commute conj_left_commute)

lemma clean_content_example: "clean_content (''[see here](http://x.com/y) &gt; *bold* '' @ [CHR 0x60] @ ''code'' @ [CHR 0x60])
   = ''see here > bold code''"
proof -
  have "sub_links (''['' @ ''see here'' @ ''](http://'' @ ''x.com/y'' @ '')'' @ '' &gt; *bold* '' @ [CHR 0x60] @ ''code'' @ [CHR 0x60])
        = ''see here'' @ sub_links ('' &gt; *bold* '' @ [CHR 0x60] @ ''code'' @ [CHR 0x60])"
    by (rule sub_links_link) simp_all
  moreover have "sub_links ('' &gt; *bold* '' @ [CHR 0x60] @ ''code'' @ [CHR 0x60])
        = '' &gt; *bold* '' @ [CHR 0x60] @ ''code'' @ [CHR 0x60]"
    by (rule sub_links_no_bracket) simp
  ultimately have s: "sub_links (''[see here](http://x.com/y) &gt; *bold* '' @ [CHR 0x60] @ ''code'' @ [CHR 0x60])
        = ''see here &gt; *bold* '' @ [CHR 0x60] @ ''code'' @ [CHR 0x60]"
    by simp
  have g: "replace_str ''&gt;'' ''>'' (''see here '' @ ''&gt;'' @ '' *bold* '' @ [CHR 0x60] @ ''code'' @ [CHR 0x60])
        = ''see here '' @ ''>'' @ replace_str ''&gt;'' ''>'' ('' *bold* '' @ [CHR 0x60] @ ''code'' @ [CHR 0x60])"
    by (rule replace_str_first) simp
  have g2: "replace_str ''&gt;'' ''>'' ('' *bold* '' @ [CHR 0x60] @ ''code'' @ [CHR 0x60])
        = '' *bold* '' @ [CHR 0x60] @ ''code'' @ [CHR 0x60]"
    by (rule replace_str_absent) simp
  have l: "replace_str ''&lt;'' ''<'' (''see here > *bold* '' @ [CHR 0x60] @ ''code'' @ [CHR 0x60])
        = ''see here > *bold* '' @ [CHR 0x60] @ ''code'' @ [CHR 0x60]"
    by (rule replace_str_absent) simp
  have n: "normalize_whitespace ''see here > bold code'' = ''see here > bold code''"
    by (simp add: normalize_whitespace_def strip_def is_space_def)
  show ?thesis
    using s g g2 l n by (simp add: clean_content_filter)
qed


lemma is_space_blank [simp]: "is_space CHR '' ''"
  by (simp add: is_space_def)

lemma set_collapse_spaces: "set (collapse_spaces b s) \<subseteq> insert CHR '' '' (set s)"
  by (induction b s rule: collapse_spaces.induct) auto

lemma collapse_spaces_only_blank:
  "x \<in> set (collapse_spaces b s) \<Longrightarrow> is_space x \<Longrightarrow> x = CHR '' ''"
  by (induction b s rule: collapse_spaces.induct) (auto split: if_splits)

lemma collapse_spaces_in_run:
  "collapse_spaces True s = [] \<or> \<not> is_space (hd (collapse_spaces True s))"
  by (induction s) auto

lemma successively_collapse_spaces:
  "successively (\<lambda>a b. \<not> (is_space a \<and> is_space b)) (collapse_spaces b s)"
proof (induction b s rule: collapse_spaces.induct)
  case (1 in_run)
  show ?case by simp
next
  case (2 in_run c cs)
  then show ?case
    using collapse_spaces_in_run [of cs]
    by (auto simp: successively_Cons)
qed

lemma successively_dropWhile:
  "successively P xs \<Longrightarrow> successively P (dropWhile Q xs)"
  by (metis successively_append_iff takeWhile_dropWhile_id)

lemma successively_strip:
  assumes "successively (\<lambda>a b. \<not> (is_space a \<and> is_space b)) s"
  shows "successively (\<lambda>a b. \<not> (is_space a \<and> is_space b)) (strip s)"
proof -
  let ?P = "\<lambda>a b. \<not> (is_space a \<and> is_space b)"
  have sym: "(\<lambda>x y. ?P y x) = ?P" by (auto simp: fun_eq_iff)
  have flip: "successively ?P (rev xs) = successively ?P xs" for xs
    by (simp only: successively_rev sym)
  have "successively ?P (dropWhile is_space s)"
    using assms by (rule successively_dropWhile)
  then have "successively ?P (rev (dropWhile is_space s))"
    by (simp only: flip)
  then have "successively ?P (dropWhile is_space (rev (dropWhile is_space s)))"
    by (rule successively_dropWhile)
  then have "successively ?P (rev (dropWhile is_space (rev (dropWhile is_space s))))"
    by (simp only: flip)
  then show ?thesis by (simp only: strip_def)
qed

lemma last_dropWhile: "dropWhile P xs \<noteq> [] \<Longrightarrow> last (dropWhile P xs) = last xs"
  by (induction xs) (auto split: if_splits)

lemma strip_ends:
  assumes "strip s \<noteq> []"
  shows "\<not> is_space (hd (strip s)) \<and> \<not> is_space (last (strip s))"
proof -
  let ?u = "dropWhile is_space s"
  let ?v = "dropWhile is_space (rev ?u)"
  from assms have v: "?v \<noteq> []" by (simp add: strip_def)
  have u: "?u \<noteq> []"
  proof
    assume "?u = []"
    then have "?v = []" by (simp only: rev.simps dropWhile.simps)
    with v show False by blast
  qed
  have "hd (strip s) = last ?v" using v by (simp add: strip_def hd_rev)
  also have "\<dots> = last (rev ?u)" using v by (rule last_dropWhile)
  also have "\<dots> = hd ?u" using u by (simp add: last_rev)
  finally have "\<not> is_space (hd (strip s))" using u hd_dropWhile [of is_space s] by simp
  moreover have "last (strip s) = hd ?v" using v by (simp add: strip_def last_rev)
  then have "\<not> is_space (last (strip s))" using v hd_dropWhile [of is_space "rev ?u"] by simp
  ultimately show ?thesis by simp
qed

lemma normalize_whitespace_normal:
  "(normalize_whitespace s \<noteq> [] \<longrightarrow>
      \<not> is_space (hd (normalize_whitespace s)) \<and> \<not> is_space (last (normalize_whitespace s)))
   \<and> (\<forall>x \<in> set (normalize_whitespace s). is_space x \<longrightarrow> x = CHR '' '')
   \<and> successively (\<lambda>a b. \<not> (is_space a \<and> is_space b)) (normalize_whitespace s)"
  unfolding normalize_whitespace_def
  using strip_ends [of "collapse_spaces False s"] set_strip [of "collapse_spaces False s"]
    collapse_spaces_only_blank [of _ False s]
    successively_strip [OF successively_collapse_spaces [of False s]]
  by blast

lemma set_normalize_whitespace: "set (normalize_whitespace s) \<subseteq> insert CHR '' '' (set s)"
  unfolding normalize_whitespace_def
  using set_strip [of "collapse_spaces False s"] set_collapse_spaces [of False s] by blast

lemma clean_content_no_markers:
  "CHR 0x60 \<notin> set (clean_content c) \<and> CHR ''*'' \<notin> set (clean_content c)
   \<and> CHR ''~'' \<notin> set (clean_content c)"
  unfolding clean_content_filter
  using set_normalize_whitespace
    [of "filter (\<lambda>x. x \<noteq> CHR 0x60 \<and> x \<noteq> CHR ''*'' \<and> x \<noteq> CHR ''~'')
          (replace_str ''&lt;'' ''<'' (replace_str ''&gt;'' ''>'' (sub_links c)))"]
  by auto


lemma strip_prefix_Some: "strip_prefix p s = Some r \<Longrightarrow> s = p @ r"
proof -
  assume "strip_prefix p s = Some r"
  then have "take (length p) s = p" "r = drop (length p) s"
    by (auto simp: strip_prefix_def split: if_splits)
  then show ?thesis by (metis append_take_drop_id)
qed

lemma sub_links_prefix: "CHR ''['' \<notin> set pre \<Longrightarrow> sub_links (pre @ s) = pre @ sub_links s"
  by (induction pre) (simp_all add: sub_links.simps(2) match_link_not_bracket)

lemma sub_links_no_match: "match_link (c # cs) = None \<Longrightarrow> sub_links (c # cs) = c # sub_links cs"
  by (simp add: sub_links.simps)

lemma match_link_Some:
  assumes "match_link s = Some (label, rest)"
  shows "\<exists>url. label \<noteq> [] \<and> CHR '']'' \<notin> set label \<and> url \<noteq> [] \<and> CHR '')'' \<notin> set url
           \<and> (s = ''['' @ label @ ''](http://'' @ url @ '')'' @ rest
              \<or> s = ''['' @ label @ ''](https://'' @ url @ '')'' @ rest)"
proof -
  from assms obtain r r2 r3 where
    r: "strip_prefix ''['' s = Some r"
    and l: "label = takeWhile (\<lambda>c. c \<noteq> CHR '']'') r" "label \<noteq> []"
    and r2: "strip_prefix ''](http'' (dropWhile (\<lambda>c. c \<noteq> CHR '']'') r) = Some r2"
    and r3: "strip_prefix ''s://'' r2 = Some r3 \<or> strip_prefix ''://'' r2 = Some r3"
    and u: "takeWhile (\<lambda>c. c \<noteq> CHR '')'') r3 \<noteq> []"
    and r4: "strip_prefix '')'' (dropWhile (\<lambda>c. c \<noteq> CHR '')'') r3) = Some rest"
    by (auto simp: match_link_def Let_def split: option.splits if_splits)
  define url where "url = takeWhile (\<lambda>c. c \<noteq> CHR '')'') r3"
  have e1: "s = ''['' @ r" using strip_prefix_Some [OF r] .
  have e2: "r = label @ ''](http'' @ r2"
    using strip_prefix_Some [OF r2] takeWhile_dropWhile_id [of "\<lambda>c. c \<noteq> CHR '']''" r] l(1)
    by simp
  have e3: "r2 = ''s://'' @ r3 \<or> r2 = ''://'' @ r3"
    using r3 strip_prefix_Some by blast
  have e4: "r3 = url @ '')'' @ rest"
    using strip_prefix_Some [OF r4] takeWhile_dropWhile_id [of "\<lambda>c. c \<noteq> CHR '')''" r3]
    by (simp add: url_def)
  have n1: "CHR '']'' \<notin> set label" unfolding l(1) by (auto dest: set_takeWhileD)
  have n2: "CHR '')'' \<notin> set url" unfolding url_def by (auto dest: set_takeWhileD)
  have "s = ''['' @ label @ ''](http://'' @ url @ '')'' @ rest
        \<or> s = ''['' @ label @ ''](https://'' @ url @ '')'' @ rest"
    using e1 e2 e3 e4 by auto
  with l(2) n1 n2 u show ?thesis unfolding url_def [symmetric] by blast
qed

lemma match_link_iff:
  "match_link s = Some (label, rest) \<longleftrightarrow>
     (\<exists>url. label \<noteq> [] \<and> CHR '']'' \<notin> set label \<and> url \<noteq> [] \<and> CHR '')'' \<notin> set url
           \<and> (s = ''['' @ label @ ''](http://'' @ url @ '')'' @ rest
              \<or> s = ''['' @ label @ ''](https://'' @ url @ '')'' @ rest))"
  using match_link_Some [of s label rest] match_link_http [of label _ rest] by blast

lemma replace_str_Cons:
  "replace_str (o1 # os) new (c # cs)
   = (if c = o1 \<and> take (length os) cs = os
      then new @ replace_str (o1 # os) new (drop (length os) cs)
      else c # replace_str (o1 # os) new cs)"
  by (subst replace_str.simps) auto

lemma sub_links_link_after:
  assumes "CHR ''['' \<notin> set pre"
    and "label \<noteq> []" "CHR '']'' \<notin> set label" "url \<noteq> []" "CHR '')'' \<notin> set url"
  shows "sub_links (pre @ ''['' @ label @ ''](http://'' @ url @ '')'' @ rest)
         = pre @ label @ sub_links rest"
    and "sub_links (pre @ ''['' @ label @ ''](https://'' @ url @ '')'' @ rest)
         = pre @ label @ sub_links rest"
  by (simp_all only: sub_links_prefix [OF assms(1)] sub_links_link [OF assms(2-5)])

lemma clean_content_example_inner:
  "clean_content ''see [a](http://b) and [c](https://d/e) x'' = ''see a and c x''"
proof -
  have a: "sub_links (''see '' @ ''['' @ ''a'' @ ''](http://'' @ ''b'' @ '')'' @ '' and [c](https://d/e) x'')
        = ''see '' @ ''a'' @ sub_links '' and [c](https://d/e) x''"
    by (rule sub_links_link_after) simp_all
  have b: "sub_links ('' and '' @ ''['' @ ''c'' @ ''](https://'' @ ''d/e'' @ '')'' @ '' x'')
        = '' and '' @ ''c'' @ sub_links '' x''"
    by (rule sub_links_link_after) simp_all
  have c: "sub_links '' x'' = '' x''"
    by (rule sub_links_no_bracket) simp
  from a b c have s: "sub_links ''see [a](http://b) and [c](https://d/e) x'' = ''see a and c x''"
    by simp
  have g: "replace_str ''&gt;'' ''>'' ''see a and c x'' = ''see a and c x''"
    by (rule replace_str_absent) simp
  have l: "replace_str ''&lt;'' ''<'' ''see a and c x'' = ''see a and c x''"
    by (rule replace_str_absent) simp
  have n: "normalize_whitespace ''see a and c x'' = ''see a and c x''"
    by (simp add: normalize_whitespace_def strip_def is_space_def)
  show ?thesis
    using s g l n by (simp add: clean_content_filter)
qed

text \<open>
  C8: \<^verbatim>\<open>_clean_content\<close> is a total function of the text. It replaces every link
  \<^verbatim>\<open>[label](url)\<close> whose url starts with \<^verbatim>\<open>http://\<close> or \<^verbatim>\<open>https://\<close> by its label,
  wherever in the text the link stands, then \<^verbatim>\<open>&gt;\<close> by \<^verbatim>\<open>>\<close> and \<^verbatim>\<open>&lt;\<close> by
  \<^verbatim>\<open><\<close>, then deletes every backtick, asterisk and tilde, and normalizes the whitespace
  last: the result has no backtick, asterisk or tilde, no whitespace at either end, no
  whitespace but single blanks. On \<^verbatim>\<open>[see here](http://x.com/y) &gt; *bold* `code`\<close> it
  gives \<^verbatim>\<open>see here > bold code\<close>, and on \<^verbatim>\<open>see [a](http://b) and [c](https://d/e) x\<close>
  it gives \<^verbatim>\<open>see a and c x\<close>.

  The link replacement is stated in full: text without an opening bracket is kept; a
  link after text without an opening bracket is replaced by its label and the
  replacement goes on behind the link; an opening bracket that starts no link is kept
  and the replacement goes on behind it; and a link starts a text exactly when the text
  is an opening bracket, a non-empty label without closing bracket, \<^verbatim>\<open>](http://\<close> or
  \<^verbatim>\<open>](https://\<close>, a non-empty url without closing parenthesis, and a closing
  parenthesis. So is the replacement of an entity, character by character.
\<close>

theorem clean_content_spec:
  "clean_content ''[see here](http://x.com/y) &gt; *bold* `code`'' = ''see here > bold code''
   \<and> clean_content ''see [a](http://b) and [c](https://d/e) x'' = ''see a and c x''
   \<and> (\<forall>c. clean_content c
          = normalize_whitespace
              (filter (\<lambda>x. x \<noteq> CHR 0x60 \<and> x \<noteq> CHR ''*'' \<and> x \<noteq> CHR ''~'')
                 (replace_str ''&lt;'' ''<'' (replace_str ''&gt;'' ''>'' (sub_links c)))))
   \<and> (\<forall>c. CHR 0x60 \<notin> set (clean_content c) \<and> CHR ''*'' \<notin> set (clean_content c)
          \<and> CHR ''~'' \<notin> set (clean_content c))
   \<and> (\<forall>c. (clean_content c \<noteq> [] \<longrightarrow>
             \<not> is_space (hd (clean_content c)) \<and> \<not> is_space (last (clean_content c)))
          \<and> (\<forall>x \<in> set (clean_content c). is_space x \<longrightarrow> x = CHR '' '')
          \<and> successively (\<lambda>a b. \<not> (is_space a \<and> is_space b)) (clean_content c))
   \<and> (\<forall>pre label url rest.
          CHR ''['' \<notin> set pre
          \<and> label \<noteq> [] \<and> CHR '']'' \<notin> set label \<and> url \<noteq> [] \<and> CHR '')'' \<notin> set url \<longrightarrow>
          sub_links (pre @ ''['' @ label @ ''](http://'' @ url @ '')'' @ rest)
            = pre @ label @ sub_links rest
          \<and> sub_links (pre @ ''['' @ label @ ''](https://'' @ url @ '')'' @ rest)
            = pre @ label @ sub_links rest)
   \<and> (\<forall>s. CHR ''['' \<notin> set s \<longrightarrow> sub_links s = s)
   \<and> (\<forall>pre cs. CHR ''['' \<notin> set pre \<and> match_link (CHR ''['' # cs) = None \<longrightarrow>
          sub_links (pre @ CHR ''['' # cs) = pre @ CHR ''['' # sub_links cs)
   \<and> (\<forall>s label rest. match_link s = Some (label, rest) \<longleftrightarrow>
          (\<exists>url. label \<noteq> [] \<and> CHR '']'' \<notin> set label \<and> url \<noteq> [] \<and> CHR '')'' \<notin> set url
             \<and> (s = ''['' @ label @ ''](http://'' @ url @ '')'' @ rest
                \<or> s = ''['' @ label @ ''](https://'' @ url @ '')'' @ rest)))
   \<and> (\<forall>a b. CHR ''&'' \<notin> set a \<longrightarrow>
          replace_str ''&gt;'' ''>'' (a @ ''&gt;'' @ b) = a @ ''>'' @ replace_str ''&gt;'' ''>'' b
          \<and> replace_str ''&lt;'' ''<'' (a @ ''&lt;'' @ b) = a @ ''<'' @ replace_str ''&lt;'' ''<'' b)
   \<and> (\<forall>c cs.
          replace_str ''&gt;'' ''>'' (c # cs)
            = (if c = CHR ''&'' \<and> take 3 cs = ''gt;''
               then ''>'' @ replace_str ''&gt;'' ''>'' (drop 3 cs)
               else c # replace_str ''&gt;'' ''>'' cs)
          \<and> replace_str ''&lt;'' ''<'' (c # cs)
            = (if c = CHR ''&'' \<and> take 3 cs = ''lt;''
               then ''<'' @ replace_str ''&lt;'' ''<'' (drop 3 cs)
               else c # replace_str ''&lt;'' ''<'' cs))
   \<and> replace_str ''&gt;'' ''>'' [] = [] \<and> replace_str ''&lt;'' ''<'' [] = []"
proof -
  have 1: "clean_content ''[see here](http://x.com/y) &gt; *bold* `code`'' = ''see here > bold code''"
    using clean_content_example by simp
  have 2: "clean_content ''see [a](http://b) and [c](https://d/e) x'' = ''see a and c x''"
    by (rule clean_content_example_inner)
  have 3: "\<forall>c. clean_content c
          = normalize_whitespace
              (filter (\<lambda>x. x \<noteq> CHR 0x60 \<and> x \<noteq> CHR ''*'' \<and> x \<noteq> CHR ''~'')
                 (replace_str ''&lt;'' ''<'' (replace_str ''&gt;'' ''>'' (sub_links c))))"
    using clean_content_filter by blast
  have 4: "\<forall>c. CHR 0x60 \<notin> set (clean_content c) \<and> CHR ''*'' \<notin> set (clean_content c)
          \<and> CHR ''~'' \<notin> set (clean_content c)"
    using clean_content_no_markers by blast
  have 5: "\<forall>c. (clean_content c \<noteq> [] \<longrightarrow>
             \<not> is_space (hd (clean_content c)) \<and> \<not> is_space (last (clean_content c)))
          \<and> (\<forall>x \<in> set (clean_content c). is_space x \<longrightarrow> x = CHR '' '')
          \<and> successively (\<lambda>a b. \<not> (is_space a \<and> is_space b)) (clean_content c)"
    unfolding clean_content_filter by (intro allI) (rule normalize_whitespace_normal)
  have 6: "\<forall>pre label url rest.
          CHR ''['' \<notin> set pre
          \<and> label \<noteq> [] \<and> CHR '']'' \<notin> set label \<and> url \<noteq> [] \<and> CHR '')'' \<notin> set url \<longrightarrow>
          sub_links (pre @ ''['' @ label @ ''](http://'' @ url @ '')'' @ rest)
            = pre @ label @ sub_links rest
          \<and> sub_links (pre @ ''['' @ label @ ''](https://'' @ url @ '')'' @ rest)
            = pre @ label @ sub_links rest"
    using sub_links_link_after by blast
  have 7: "\<forall>s. CHR ''['' \<notin> set s \<longrightarrow> sub_links s = s"
    using sub_links_no_bracket by blast
  have 8: "\<forall>pre cs. CHR ''['' \<notin> set pre \<and> match_link (CHR ''['' # cs) = None \<longrightarrow>
          sub_links (pre @ CHR ''['' # cs) = pre @ CHR ''['' # sub_links cs"
    by (simp add: sub_links_prefix sub_links_no_match)
  have 9: "\<forall>s label rest. match_link s = Some (label, rest) \<longleftrightarrow>
          (\<exists>url. label \<noteq> [] \<and> CHR '']'' \<notin> set label \<and> url \<noteq> [] \<and> CHR '')'' \<notin> set url
             \<and> (s = ''['' @ label @ ''](http://'' @ url @ '')'' @ rest
                \<or> s = ''['' @ label @ ''](https://'' @ url @ '')'' @ rest))"
    by (intro allI) (rule match_link_iff)
  have 10: "\<forall>a b. CHR ''&'' \<notin> set a \<longrightarrow>
          replace_str ''&gt;'' ''>'' (a @ ''&gt;'' @ b) = a @ ''>'' @ replace_str ''&gt;'' ''>'' b
          \<and> replace_str ''&lt;'' ''<'' (a @ ''&lt;'' @ b) = a @ ''<'' @ replace_str ''&lt;'' ''<'' b"
    using replace_str_first by blast
  have 11: "\<forall>c cs.
          replace_str ''&gt;'' ''>'' (c # cs)
            = (if c = CHR ''&'' \<and> take 3 cs = ''gt;''
               then ''>'' @ replace_str ''&gt;'' ''>'' (drop 3 cs)
               else c # replace_str ''&gt;'' ''>'' cs)
          \<and> replace_str ''&lt;'' ''<'' (c # cs)
            = (if c = CHR ''&'' \<and> take 3 cs = ''lt;''
               then ''<'' @ replace_str ''&lt;'' ''<'' (drop 3 cs)
               else c # replace_str ''&lt;'' ''<'' cs)"
    by (simp add: replace_str_Cons numeral_3_eq_3)
  have 12: "replace_str ''&gt;'' ''>'' [] = []" "replace_str ''&lt;'' ''<'' [] = []"
    by (simp_all add: replace_str_Nil)
  show ?thesis
    by (intro conjI) (fact 1 2 3 4 5 6 7 8 9 10 11 12)+
qed

text \<open>
  The theorem at a link in the middle of a text, at a link behind a bracket that starts
  no link, at entities behind a stray ampersand, and at a text with whitespace at both
  ends.
\<close>

theorem clean_content_spec_witness:
  "sub_links ''see [a](http://b) x'' = ''see a x''
   \<and> match_link ''[x] [see here](https://x.com/y?a=(1) and [this]'' = None
   \<and> sub_links ''[x] [see here](https://x.com/y?a=(1) and [this]'' = ''[x] see here and [this]''
   \<and> match_link ''[a](http://b) x'' = Some (''a'', '' x'')
   \<and> replace_str ''&lt;'' ''<'' ''1 &lt; 2 &amp; 3'' = ''1 < 2 &amp; 3''
   \<and> replace_str ''&gt;'' ''>'' ''a & b &gt; c'' = ''a & b > c''
   \<and> clean_content ''  ~~a~~ **b**  '' = ''a b''
   \<and> \<not> is_space (hd (clean_content ''  ~~a~~ **b**  ''))
   \<and> \<not> is_space (last (clean_content ''  ~~a~~ **b**  ''))"
proof -
  note t = clean_content_spec [THEN conjunct2, THEN conjunct2, THEN conjunct2, THEN conjunct2]
  note ends = t [THEN conjunct1, rule_format, THEN conjunct1, rule_format]
  note link = t [THEN conjunct2, THEN conjunct1, rule_format]
  note plain = t [THEN conjunct2, THEN conjunct2, THEN conjunct1, rule_format]
  note nolink = t [THEN conjunct2, THEN conjunct2, THEN conjunct2, THEN conjunct1, rule_format]
  note iff = t [THEN conjunct2, THEN conjunct2, THEN conjunct2, THEN conjunct2, THEN conjunct1,
      rule_format]
  note ent = t [THEN conjunct2, THEN conjunct2, THEN conjunct2, THEN conjunct2, THEN conjunct2,
      THEN conjunct1, rule_format]
  note step = t [THEN conjunct2, THEN conjunct2, THEN conjunct2, THEN conjunct2, THEN conjunct2,
      THEN conjunct2, THEN conjunct1, rule_format]
  note nil = t [THEN conjunct2, THEN conjunct2, THEN conjunct2, THEN conjunct2, THEN conjunct2,
      THEN conjunct2, THEN conjunct2]
  have "sub_links (''see '' @ ''['' @ ''a'' @ ''](http://'' @ ''b'' @ '')'' @ '' x'')
        = ''see '' @ ''a'' @ sub_links '' x''"
    by (rule link [THEN conjunct1]) simp
  moreover have x: "sub_links '' x'' = '' x''"
    by (rule plain) simp
  ultimately have a: "sub_links ''see [a](http://b) x'' = ''see a x''"
    by simp
  have m: "match_link ''[x] [see here](https://x.com/y?a=(1) and [this]'' = None"
    by (simp add: match_link_def strip_prefix_def)
  have "sub_links ([] @ CHR ''['' # ''x] [see here](https://x.com/y?a=(1) and [this]'')
        = [] @ CHR ''['' # sub_links ''x] [see here](https://x.com/y?a=(1) and [this]''"
    by (rule nolink) (simp add: m)
  moreover have "sub_links (''x] '' @ ''['' @ ''see here'' @ ''](https://'' @ ''x.com/y?a=(1'' @ '')''
                   @ '' and [this]'')
        = ''x] '' @ ''see here'' @ sub_links '' and [this]''"
    by (rule link [THEN conjunct2]) simp
  moreover have "match_link ''[this]'' = None"
    by (simp add: match_link_def strip_prefix_def)
  then have "sub_links ('' and '' @ CHR ''['' # ''this]'') = '' and '' @ CHR ''['' # sub_links ''this]''"
    by (intro nolink) simp
  moreover have "sub_links ''this]'' = ''this]''"
    by (rule plain) simp
  ultimately have b: "sub_links ''[x] [see here](https://x.com/y?a=(1) and [this]''
        = ''[x] see here and [this]''"
    by simp
  have "match_link (''['' @ ''a'' @ ''](http://'' @ ''b'' @ '')'' @ '' x'') = Some (''a'', '' x'')"
    unfolding iff by (intro exI [of _ "''b''"]) simp
  then have c: "match_link ''[a](http://b) x'' = Some (''a'', '' x'')"
    by simp
  have "replace_str ''&lt;'' ''<'' (''1 '' @ ''&lt;'' @ '' 2 &amp; 3'')
        = ''1 '' @ ''<'' @ replace_str ''&lt;'' ''<'' '' 2 &amp; 3''"
    by (rule ent [THEN conjunct2]) simp
  moreover have "replace_str ''&lt;'' ''<'' '' 2 &amp; 3'' = '' 2 &amp; 3''"
    by (simp add: step nil)
  ultimately have d: "replace_str ''&lt;'' ''<'' ''1 &lt; 2 &amp; 3'' = ''1 < 2 &amp; 3''"
    by simp
  have e: "replace_str ''&gt;'' ''>'' ''a & b &gt; c'' = ''a & b > c''"
    by (simp add: step nil)
  have f: "clean_content ''  ~~a~~ **b**  '' = ''a b''"
    by (simp add: clean_content_filter sub_links.simps match_link_def strip_prefix_def
        replace_str.simps normalize_whitespace_def strip_def is_space_def)
  then have g: "clean_content ''  ~~a~~ **b**  '' \<noteq> []" by simp
  from a m b c d e f ends [OF g] show ?thesis by simp
qed

section \<open>The subreddit filter\<close>

text \<open>
  C9: for a line whose \<^verbatim>\<open>subreddit\<close> is \<^verbatim>\<open>"politics"\<close>, the argument
  \<^verbatim>\<open>subreddit="politics"\<close> and the collection \<^verbatim>\<open>{"politics", "news"}\<close> (a set, or a
  list) give the same result of the loop body, whatever the other filters and the rest
  of the line: the subreddit filter lets the line pass in both.
\<close>

theorem subreddit_single_or_collection:
  assumes "line ''subreddit'' = Some (JStr ''politics'')"
  shows "process_line (normalize_subreddit (SubStr ''politics'')) score_range date_range
            min_len text_only line
         = process_line (normalize_subreddit (SubSet {''politics'', ''news''})) score_range
            date_range min_len text_only line
       \<and> process_line (normalize_subreddit (SubStr ''politics'')) score_range date_range
            min_len text_only line
         = process_line (normalize_subreddit (SubList [''politics'', ''news''])) score_range
            date_range min_len text_only line
       \<and> subreddit_skips (normalize_subreddit (SubStr ''politics'')) line = Inr False
       \<and> subreddit_skips (normalize_subreddit (SubSet {''politics'', ''news''})) line = Inr False"
  using assms by (simp add: process_line_def subreddit_skips_def)

theorem subreddit_single_or_collection_witness:
  "process_line (normalize_subreddit (SubStr ''politics'')) None None 0 True
      [''subreddit'' \<mapsto> JStr ''politics'', ''body'' \<mapsto> JStr ''x'']
   = process_line (normalize_subreddit (SubSet {''politics'', ''news''})) None None 0 True
      [''subreddit'' \<mapsto> JStr ''politics'', ''body'' \<mapsto> JStr ''x'']
   \<and> snd (process_line (normalize_subreddit (SubSet {''politics'', ''news''})) None None 0 True
      [''subreddit'' \<mapsto> JStr ''politics'', ''body'' \<mapsto> JStr ''x'']) = Yield (Text ''x'')"
proof -
  let ?line = "[''subreddit'' \<mapsto> JStr ''politics'', ''body'' \<mapsto> JStr ''x'']"
  have a: "?line ''subreddit'' = Some (JStr ''politics'')" by simp
  have "snd (process_line (normalize_subreddit (SubStr ''politics'')) None None 0 True ?line)
        = Yield (Text ''x'')"
    by (simp add: line_eval timestamp_eval clean_eval)
  with a subreddit_single_or_collection [where line = ?line and score_range = None
      and date_range = None and min_len = 0 and text_only = True]
  show ?thesis by simp
qed

section \<open>Properties of the range arguments\<close>

text \<open>
  C4 (as amended): \<^verbatim>\<open>_parse_score_range\<close> replaces a false first item by
  \<^verbatim>\<open>MIN_SCORE\<close> = -2147483647 (one above the least 32-bit signed integer) and a false
  second item by \<^verbatim>\<open>MAX_SCORE\<close> = 2147483647, the greatest 32-bit signed integer; in
  particular \<^verbatim>\<open>_parse_score_range((None, 100))\<close> is \<^verbatim>\<open>(-2147483647, 100)\<close>.
\<close>

theorem parse_score_range_defaults:
  "(\<forall>a b. parse_score_range (Some [a, b]) =
      Inr (if truthy_int a then the a else - 2147483647,
           if truthy_int b then the b else 2 ^ 31 - 1))
   \<and> parse_score_range (Some [None, Some 100]) = Inr (- 2147483647, 100)
   \<and> (- 2147483647 :: int) = - (2 ^ 31) + 1"
  by (simp add: MIN_SCORE_def MAX_SCORE_def)

text \<open>
  C4 as stated fails: the value that replaces a false first item is not the least 32-bit
  signed integer -2147483648.
\<close>

theorem parse_score_range_min_counterexample:
  "parse_score_range (Some [None, Some 100]) \<noteq> Inr (- 2147483648, 100)
   \<and> parse_score_range (Some [None, Some 100]) \<noteq> Inr (- (2 ^ 31), 100)"
  by (simp add: MIN_SCORE_def MAX_SCORE_def)

text \<open>
  C10: truthiness, not a test for \<^verbatim>\<open>None\<close>, decides which bound is defaulted. A score
  bound of 0 is replaced like an unset one, whatever the other bound is, so no call
  yields a bound of 0; an empty string as a date bound is replaced by \<^verbatim>\<open>MIN_DATE\<close> or
  \<^verbatim>\<open>MAX_DATE\<close> in the same way.
\<close>

theorem zero_and_empty_bounds_are_unset:
  "parse_score_range (Some [Some 0, Some 100]) = Inr (- 2147483647, 100)
   \<and> parse_score_range (Some [Some (- 5), Some 0]) = Inr (- 5, 2147483647)
   \<and> (\<forall>b. parse_score_range (Some [Some 0, b]) = parse_score_range (Some [None, b]))
   \<and> (\<forall>a. parse_score_range (Some [a, Some 0]) = parse_score_range (Some [a, None]))
   \<and> (\<forall>r lo hi. parse_score_range r = Inr (lo, hi) \<longrightarrow> lo \<noteq> 0 \<and> hi \<noteq> 0)
   \<and> (\<forall>b. parse_date_range (Some [Some '''', b]) = parse_date_range (Some [None, b]))
   \<and> (\<forall>a. parse_date_range (Some [a, Some '''']) = parse_date_range (Some [a, None]))
   \<and> parse_date_range (Some [Some '''', Some '''']) = Inr (''2007-10-01'', ''2015-06-01'')"
proof -
  have nz: "parse_score_range r = Inr (lo, hi) \<Longrightarrow> lo \<noteq> 0 \<and> hi \<noteq> 0" for r lo hi
  proof (induction r rule: parse_score_range.induct)
    case (2 a b)
    then show ?case
      by (cases a; cases b) (auto simp: MIN_SCORE_def MAX_SCORE_def split: if_splits)
  qed simp_all
  show ?thesis
    using nz by (simp add: MIN_SCORE_def MAX_SCORE_def MIN_DATE_def MAX_DATE_def)
qed

theorem zero_and_empty_bounds_are_unset_witness:
  "parse_score_range (Some [Some 0, Some 7]) = Inr (- 2147483647, 7)
   \<and> - 2147483647 \<noteq> (0::int) \<and> (7::int) \<noteq> 0"
proof -
  have e: "parse_score_range (Some [Some 0, Some 7]) = Inr (- 2147483647, 7)"
    by (simp add: MIN_SCORE_def)
  from zero_and_empty_bounds_are_unset e show ?thesis by simp
qed

end
